theory Spec2Isabelle
  imports Main
begin

section \<open>The speech hook \<open>useSpeechSynthesis\<close>\<close>

text \<open>
  The hook keeps four pieces of React state (\<open>isMuted\<close>, \<open>isSpeaking\<close>, \<open>spokenText\<close>,
  \<open>mouthShape\<close>), the voice list, and three refs (\<open>utteranceQueue\<close>, \<open>onEndCallback\<close>,
  \<open>mouthShapeInterval\<close>). The handlers \<open>processQueue\<close>, \<open>cancel\<close>, \<open>speak\<close>, \<open>toggleMute\<close>
  and the three utterance callbacks are embedded as functions on a record of that state.
  Two things reach the handlers from outside that state: the code of the caller's
  \<open>onEnd\<close>, which \<open>processQueue\<close> and \<open>speak\<close> run, and the values of \<open>isMuted\<close>
  and \<open>voices\<close> that a \<open>speak\<close> function captured in the render that created it. The
  handlers that depend on them are embedded twice: with the caller's code and the
  captured values as parameters (\<open>processQueue_full\<close>, \<open>speak_full\<close>), and, as the
  instance the orchestration claims are about, for a callback that only returns and a
  \<open>speak\<close> taken from the latest render (\<open>processQueue\<close>, \<open>speak\<close>). Strings are
  lists of 8-bit characters; \<open>toLowerCase\<close> and \<open>trim\<close> are the ASCII/Latin-1 parts of
  the JavaScript operations.
\<close>

subsection \<open>String operations of the JavaScript runtime\<close>

definition isWhiteSpace :: "char \<Rightarrow> bool" where
  "isWhiteSpace c = (c \<in> set [CHR '' '', CHR 0x09, CHR 0x0A, CHR 0x0B, CHR 0x0C, CHR 0x0D, CHR 0xA0])"

definition trim :: "string \<Rightarrow> string" where
  "trim s = rev (dropWhile isWhiteSpace (rev (dropWhile isWhiteSpace s)))"

definition toLowerCaseChar :: "char \<Rightarrow> char" where
  "toLowerCaseChar c =
     (let n = (of_char c :: nat) in if 65 \<le> n \<and> n \<le> 90 then char_of (n + 32) else c)"

definition toLowerCase :: "string \<Rightarrow> string" where
  "toLowerCase s = map toLowerCaseChar s"

definition startsWith :: "string \<Rightarrow> string \<Rightarrow> bool" where
  "startsWith s p = (take (length p) s = p)"

text \<open>\<open>s.includes(p)\<close>: \<open>p\<close> occurs in \<open>s\<close> as a contiguous substring.\<close>

fun includesStr :: "string \<Rightarrow> string \<Rightarrow> bool" where
  "includesStr [] p = (p = [])"
| "includesStr (c # cs) p = (startsWith (c # cs) p \<or> includesStr cs p)"

text \<open>\<open>s.split('-')[0]\<close>: the part of \<open>s\<close> before the first hyphen.\<close>

definition splitFirst :: "string \<Rightarrow> string" where
  "splitFirst s = takeWhile (\<lambda>c. c \<noteq> CHR ''-'') s"

text \<open>\<open>xs.join(' ')\<close>.\<close>

fun joinSpace :: "string list \<Rightarrow> string" where
  "joinSpace [] = []"
| "joinSpace [x] = x"
| "joinSpace (x # y # ys) = x @ '' '' @ joinSpace (y # ys)"

subsection \<open>Data\<close>

record SpeechSegment =
  seg_text :: string
  seg_lang :: string

text \<open>A \<open>SpeechSynthesisVoice\<close> as the platform reports it; the hook reads \<open>name\<close> and \<open>lang\<close>.\<close>

record SpeechSynthesisVoice =
  voice_name :: string
  voice_lang :: string

text \<open>
  A \<open>SpeechSynthesisUtterance\<close>. Its \<open>onstart\<close>, \<open>onend\<close> and \<open>onerror\<close> fields hold the
  same three closures for every utterance, so they are not stored: the lifecycle events
  below dispatch to \<open>utterance_onstart\<close>, \<open>utterance_onend\<close> and \<open>utterance_onerror\<close>.
\<close>

record SpeechSynthesisUtterance =
  utt_text :: string
  utt_lang :: string
  utt_voice :: "SpeechSynthesisVoice option"

text \<open>\<open>textOrSegments: string | SpeechSegment[]\<close>.\<close>

datatype textOrSegments = Text string | Segments "SpeechSegment list"

text \<open>Calls the hook makes on \<open>window.speechSynthesis\<close>, in the order made.\<close>

datatype synthCall = SynthSpeak SpeechSynthesisUtterance | SynthCancel

text \<open>
  What the hook is given from outside: its parameter \<open>globalLanguage\<close>, the imported
  table \<open>bcp47LanguageMap\<close> (its module is not part of the sources, so the table is a
  parameter, as an association list whose keys are \<open>Object.keys\<close>), and whether
  \<open>window.speechSynthesis\<close> exists.
\<close>

record env =
  globalLanguage :: string
  bcp47LanguageMap :: "(string \<times> string) list"
  hasSpeechSynthesis :: bool

text \<open>
  The state. A caller's \<open>onEnd\<close> is represented by a number naming it, and invoking
  it appends that number to \<open>fired\<close>; what its code then does is the parameter
  \<open>callerCode\<close> of the handlers below. The interval handle is the number
  \<open>window.setInterval\<close> returned.
\<close>

record engine =
  isMuted :: bool
  isSpeaking :: bool
  spokenText :: string
  mouthShape :: string
  voices :: "SpeechSynthesisVoice list"
  utteranceQueue :: "SpeechSynthesisUtterance list"
  onEndCallback :: "nat option"
  mouthShapeInterval :: "nat option"
  fired :: "nat list"
  synthCalls :: "synthCall list"

definition MOUTH_SHAPES :: "string list" where
  "MOUTH_SHAPES = [''A'', ''B'', ''C'', ''D'', ''E'', ''F'', ''G'', ''H'']"

text \<open>The state the \<open>useState\<close>/\<open>useRef\<close> initialisers give, before any call.\<close>

definition initial :: engine where
  "initial = \<lparr>isMuted = False, isSpeaking = False, spokenText = [], mouthShape = ''X'',
     voices = [], utteranceQueue = [], onEndCallback = None, mouthShapeInterval = None,
     fired = [], synthCalls = []\<rparr>"

subsection \<open>Voice selection (the "Find best voice" block of \<open>speak\<close>)\<close>

definition bestVoice ::
  "SpeechSynthesisVoice list \<Rightarrow> string \<Rightarrow> string \<Rightarrow> SpeechSynthesisVoice option" where
  "bestVoice vs bcp47Lang langOrGender =
     (let isInterview = (langOrGender = ''male'' \<or> langOrGender = ''female'');
          desiredGender = (if isInterview then Some langOrGender else None);
          voiceCandidates = filter (\<lambda>v. startsWith (voice_lang v) (splitFirst bcp47Lang)) vs;
          exact = find (\<lambda>v. voice_lang v = bcp47Lang) voiceCandidates
      in case desiredGender of
           None \<Rightarrow> exact
         | Some g \<Rightarrow>
             (case filter (\<lambda>v. includesStr (toLowerCase (voice_name v)) g) voiceCandidates of
                [] \<Rightarrow> exact
              | v0 # rest \<Rightarrow>
                  (case find (\<lambda>v. voice_lang v = bcp47Lang) (v0 # rest) of
                     Some v \<Rightarrow> Some v
                   | None \<Rightarrow> Some v0)))"

subsection \<open>The handlers\<close>

text \<open>
  \<open>if (mouthShapeInterval.current) { clearInterval(...); mouthShapeInterval.current = null; }\<close>,
  as it occurs in \<open>processQueue\<close> and in \<open>cancel\<close>. The test is JavaScript truthiness:
  \<open>null\<close> and the number \<open>0\<close> are falsy.
\<close>

definition clearMouthShapeInterval :: "engine \<Rightarrow> engine" where
  "clearMouthShapeInterval s =
     (case mouthShapeInterval s of
        None \<Rightarrow> s
      | Some h \<Rightarrow> if h \<noteq> 0 then s\<lparr>mouthShapeInterval := None\<rparr> else s)"

text \<open>
  \<open>processQueue\<close> when the stored callback only returns (\<open>processQueue_full\<close> below
  is the handler for any caller's code).
\<close>

definition processQueue :: "engine \<Rightarrow> engine" where
  "processQueue s =
     (case utteranceQueue s of
        utterance # rest \<Rightarrow>
          s\<lparr>utteranceQueue := rest, synthCalls := synthCalls s @ [SynthSpeak utterance]\<rparr>
      | [] \<Rightarrow>
          (let s1 = clearMouthShapeInterval (s\<lparr>isSpeaking := False, mouthShape := ''X''\<rparr>)
           in case onEndCallback s1 of
                Some cb \<Rightarrow> s1\<lparr>fired := fired s1 @ [cb], onEndCallback := None\<rparr>
              | None \<Rightarrow> s1))"

definition cancel :: "env \<Rightarrow> engine \<Rightarrow> engine" where
  "cancel e s =
     (let s1 = clearMouthShapeInterval (s\<lparr>utteranceQueue := [], onEndCallback := None\<rparr>);
          s2 = s1\<lparr>isSpeaking := False, mouthShape := ''X''\<rparr>
      in if hasSpeechSynthesis e then s2\<lparr>synthCalls := synthCalls s2 @ [SynthCancel]\<rparr> else s2)"

text \<open>\<open>if (onEnd) onEnd();\<close> for an \<open>onEnd\<close> that only returns.\<close>

definition invokeOnEnd :: "nat option \<Rightarrow> engine \<Rightarrow> engine" where
  "invokeOnEnd onEnd s = (case onEnd of Some cb \<Rightarrow> s\<lparr>fired := fired s @ [cb]\<rparr> | None \<Rightarrow> s)"

text \<open>
  The first lines of \<open>speak\<close> after \<open>cancel()\<close>: a string becomes one segment, whose
  language is \<open>langOrGender\<close> when that is a key of the table and \<open>globalLanguage\<close>
  otherwise; then the segments with empty or blank text are filtered out.
\<close>

definition normalizeSegments :: "env \<Rightarrow> textOrSegments \<Rightarrow> string \<Rightarrow> SpeechSegment list" where
  "normalizeSegments e tos langOrGender =
     (let segments =
            (case tos of
               Text t \<Rightarrow>
                 [\<lparr>seg_text = t,
                   seg_lang = (if langOrGender \<in> set (map fst (bcp47LanguageMap e))
                               then langOrGender else globalLanguage e)\<rparr>]
             | Segments ss \<Rightarrow> ss)
      in filter (\<lambda>sg. seg_text sg \<noteq> [] \<and> length (trim (seg_text sg)) > 0) segments)"

text \<open>
  The body of the \<open>for (const segment of segments)\<close> loop up to the push: the
  utterance built for one segment. If \<open>segment.lang\<close> is not a key of the table (the
  type \<open>Language\<close> is meant to exclude that), \<open>bcp47Lang\<close> is \<open>undefined\<close>:
  \<open>bcp47Lang.split\<close> inside the filter callback throws a \<open>TypeError\<close> as soon as there
  is a voice to test (the result \<open>None\<close>); with no voices the callback never runs and the
  utterance gets the language \<open>undefined\<close> and no voice.
\<close>

definition newUtterance ::
  "env \<Rightarrow> SpeechSynthesisVoice list \<Rightarrow> string \<Rightarrow> SpeechSegment \<Rightarrow> SpeechSynthesisUtterance option" where
  "newUtterance e vs langOrGender segment =
     (case map_of (bcp47LanguageMap e) (seg_lang segment) of
        Some bcp47Lang \<Rightarrow>
          Some \<lparr>utt_text = seg_text segment, utt_lang = bcp47Lang,
                utt_voice = bestVoice vs bcp47Lang langOrGender\<rparr>
      | None \<Rightarrow>
          if vs = []
          then Some \<lparr>utt_text = seg_text segment, utt_lang = ''undefined'', utt_voice = None\<rparr>
          else None)"

text \<open>
  The loop: each utterance is pushed on the queue; a throw leaves the loop, and
  \<open>speak\<close>, with the utterances pushed so far.
\<close>

datatype outcome = Returned | TypeError

fun enqueue :: "env \<Rightarrow> string \<Rightarrow> SpeechSegment list \<Rightarrow> engine \<Rightarrow> outcome \<times> engine" where
  "enqueue e langOrGender [] s = (Returned, s)"
| "enqueue e langOrGender (segment # segments) s =
     (case newUtterance e (voices s) langOrGender segment of
        None \<Rightarrow> (TypeError, s)
      | Some utterance \<Rightarrow>
          enqueue e langOrGender segments
            (s\<lparr>utteranceQueue := utteranceQueue s @ [utterance]\<rparr>))"

text \<open>The default value of the parameter: \<open>langOrGender = 'en'\<close>.\<close>

definition langOrGenderArg :: "string option \<Rightarrow> string" where
  "langOrGenderArg langArg = (case langArg of None \<Rightarrow> ''en'' | Some x \<Rightarrow> x)"

text \<open>
  \<open>speak(textOrSegments, onEnd, langOrGender = 'en')\<close>, as returned by the latest
  render (so that the \<open>isMuted\<close> and \<open>voices\<close> it sees are those of the state) and
  for an \<open>onEnd\<close> that only returns; \<open>speak_full\<close> below is \<open>speak\<close> for any
  render and any caller's code. The last argument of the model, \<open>speaking\<close>, is the
  value \<open>window.speechSynthesis.speaking\<close> has when the last statement reads it.
\<close>

definition speak ::
  "env \<Rightarrow> textOrSegments \<Rightarrow> nat option \<Rightarrow> string option \<Rightarrow> bool \<Rightarrow> engine \<Rightarrow> outcome \<times> engine" where
  "speak e tos onEnd langArg speaking s =
     (let langOrGender = langOrGenderArg langArg
      in if isMuted s \<or> \<not> hasSpeechSynthesis e then (Returned, invokeOnEnd onEnd s)
         else
           (let s1 = cancel e s;
                segments = normalizeSegments e tos langOrGender
            in if length segments = 0 then (Returned, invokeOnEnd onEnd s1)
               else
                 (let s2 = s1\<lparr>spokenText := joinSpace (map seg_text segments),
                              isSpeaking := True, mouthShape := ''A'', onEndCallback := onEnd\<rparr>
                  in case enqueue e langOrGender segments s2 of
                       (TypeError, s3) \<Rightarrow> (TypeError, s3)
                     | (Returned, s3) \<Rightarrow>
                         (Returned, if \<not> speaking then processQueue s3 else s3))))"

definition toggleMute :: "env \<Rightarrow> engine \<Rightarrow> engine" where
  "toggleMute e s =
     (let nextState = \<not> isMuted s;
          s1 = (if nextState then cancel e s else s)
      in s1\<lparr>isMuted := nextState\<rparr>)"

text \<open>
  \<open>utterance.onstart\<close>: replaces the interval; \<open>h\<close> is the handle \<open>window.setInterval\<close>
  returns. The interval's own callback is \<open>mouthTick\<close>, where \<open>i\<close> is
  \<open>Math.floor(Math.random() * MOUTH_SHAPES.length)\<close>, always below the length.
\<close>

definition utterance_onstart :: "SpeechSynthesisUtterance \<Rightarrow> nat \<Rightarrow> engine \<Rightarrow> engine" where
  "utterance_onstart u h s = s\<lparr>mouthShapeInterval := Some h\<rparr>"

definition mouthTick :: "nat \<Rightarrow> engine \<Rightarrow> engine" where
  "mouthTick i s = (if i < length MOUTH_SHAPES then s\<lparr>mouthShape := MOUTH_SHAPES ! i\<rparr> else s)"

text \<open>
  \<open>utterance.onend\<close> and \<open>utterance.onerror\<close>. Neither closure looks at the utterance it
  was attached to; \<open>onerror\<close> writes its event to the debug log, which is not state of
  the hook, and then does what \<open>onend\<close> does.
\<close>

definition utterance_onend :: "SpeechSynthesisUtterance \<Rightarrow> engine \<Rightarrow> engine" where
  "utterance_onend u s = processQueue s"

definition utterance_onerror :: "SpeechSynthesisUtterance \<Rightarrow> string \<Rightarrow> engine \<Rightarrow> engine" where
  "utterance_onerror u err s = processQueue s"

definition handleVoicesChanged :: "SpeechSynthesisVoice list \<Rightarrow> engine \<Rightarrow> engine" where
  "handleVoicesChanged availableVoices s = s\<lparr>voices := availableVoices\<rparr>"

subsection \<open>The handlers with the caller's code and the render's values\<close>

text \<open>
  The code of the caller's callbacks: given the callback and the state of the hook at
  the moment it is invoked, the state when it is left, and whether it returned or threw.
  The callback may call the functions the hook returned, so it may change the state.
  \<open>inert\<close> is the code of callbacks that return having done nothing to the hook.
\<close>

datatype completion = Completed | Threw

type_synonym callerCode = "nat \<Rightarrow> engine \<Rightarrow> completion \<times> engine"

definition inert :: callerCode where
  "inert cb s = (Completed, s)"

text \<open>
  \<open>if (onEnd) onEnd();\<close>: the invocation is recorded, the caller's code runs, and what
  it throws leaves \<open>speak\<close>.
\<close>

definition invokeOnEnd_full :: "callerCode \<Rightarrow> nat option \<Rightarrow> engine \<Rightarrow> completion \<times> engine" where
  "invokeOnEnd_full code onEnd s =
     (case onEnd of Some cb \<Rightarrow> code cb (s\<lparr>fired := fired s @ [cb]\<rparr>) | None \<Rightarrow> (Completed, s))"

text \<open>
  \<open>processQueue\<close>. In the branch of the empty queue the two statements
  \<open>onEndCallback.current(); onEndCallback.current = undefined;\<close> run in this order: the
  caller's code runs while the callback is still stored, the ref is cleared after it has
  returned (whatever it stored meanwhile), and not at all if it throws.
\<close>

definition processQueue_full :: "callerCode \<Rightarrow> engine \<Rightarrow> completion \<times> engine" where
  "processQueue_full code s =
     (case utteranceQueue s of
        utterance # rest \<Rightarrow>
          (Completed,
           s\<lparr>utteranceQueue := rest, synthCalls := synthCalls s @ [SynthSpeak utterance]\<rparr>)
      | [] \<Rightarrow>
          (let s1 = clearMouthShapeInterval (s\<lparr>isSpeaking := False, mouthShape := ''X''\<rparr>)
           in case onEndCallback s1 of
                Some cb \<Rightarrow>
                  (case code cb (s1\<lparr>fired := fired s1 @ [cb]\<rparr>) of
                     (Completed, s2) \<Rightarrow> (Completed, s2\<lparr>onEndCallback := None\<rparr>)
                   | (Threw, s2) \<Rightarrow> (Threw, s2))
              | None \<Rightarrow> (Completed, s1)))"

text \<open>
  What a \<open>speak\<close> function has captured: \<open>useCallback\<close> makes a new \<open>speak\<close> when
  \<open>isMuted\<close> or \<open>voices\<close> change, and each \<open>speak\<close> reads the values of the render
  that made it, not the state at the time of the call. \<open>latest\<close> is what the
  \<open>speak\<close> of the render of the present state has captured.
\<close>

record closure =
  seen_isMuted :: bool
  seen_voices :: "SpeechSynthesisVoice list"

definition latest :: "engine \<Rightarrow> closure" where
  "latest s = \<lparr>seen_isMuted = isMuted s, seen_voices = voices s\<rparr>"

text \<open>The loop of \<open>speak\<close>, choosing among the voices captured.\<close>

fun enqueue_full ::
  "SpeechSynthesisVoice list \<Rightarrow> env \<Rightarrow> string \<Rightarrow> SpeechSegment list \<Rightarrow> engine \<Rightarrow> completion \<times> engine" where
  "enqueue_full vs e langOrGender [] s = (Completed, s)"
| "enqueue_full vs e langOrGender (segment # segments) s =
     (case newUtterance e vs langOrGender segment of
        None \<Rightarrow> (Threw, s)
      | Some utterance \<Rightarrow>
          enqueue_full vs e langOrGender segments
            (s\<lparr>utteranceQueue := utteranceQueue s @ [utterance]\<rparr>))"

text \<open>\<open>speak\<close>, as made by the render whose values are \<open>c\<close>, with the caller's code.\<close>

definition speak_full ::
  "callerCode \<Rightarrow> closure \<Rightarrow> env \<Rightarrow> textOrSegments \<Rightarrow> nat option \<Rightarrow> string option \<Rightarrow> bool \<Rightarrow>
   engine \<Rightarrow> completion \<times> engine" where
  "speak_full code c e tos onEnd langArg speaking s =
     (let langOrGender = langOrGenderArg langArg
      in if seen_isMuted c \<or> \<not> hasSpeechSynthesis e then invokeOnEnd_full code onEnd s
         else
           (let s1 = cancel e s;
                segments = normalizeSegments e tos langOrGender
            in if length segments = 0 then invokeOnEnd_full code onEnd s1
               else
                 (let s2 = s1\<lparr>spokenText := joinSpace (map seg_text segments),
                              isSpeaking := True, mouthShape := ''A'', onEndCallback := onEnd\<rparr>
                  in case enqueue_full (seen_voices c) e langOrGender segments s2 of
                       (Threw, s3) \<Rightarrow> (Threw, s3)
                     | (Completed, s3) \<Rightarrow>
                         if \<not> speaking then processQueue_full code s3 else (Completed, s3))))"

definition utterance_onend_full ::
  "callerCode \<Rightarrow> SpeechSynthesisUtterance \<Rightarrow> engine \<Rightarrow> completion \<times> engine" where
  "utterance_onend_full code u s = processQueue_full code s"

definition utterance_onerror_full ::
  "callerCode \<Rightarrow> SpeechSynthesisUtterance \<Rightarrow> string \<Rightarrow> engine \<Rightarrow> completion \<times> engine" where
  "utterance_onerror_full code u err s = processQueue_full code s"

subsection \<open>Runs of the hook\<close>

text \<open>
  Everything that can happen to a mounted hook: the three functions it returns are
  called, or the platform delivers a lifecycle event of some utterance, an interval
  tick, or a change of the voice list.
\<close>

datatype event =
    Speak textOrSegments "nat option" "string option" bool
  | Cancel
  | ToggleMute
  | UtteranceStart SpeechSynthesisUtterance nat
  | UtteranceEnd SpeechSynthesisUtterance
  | UtteranceError SpeechSynthesisUtterance string
  | IntervalTick nat
  | VoicesChanged "SpeechSynthesisVoice list"

fun step :: "env \<Rightarrow> event \<Rightarrow> engine \<Rightarrow> engine" where
  "step e (Speak tos onEnd langArg speaking) s = snd (speak e tos onEnd langArg speaking s)"
| "step e Cancel s = cancel e s"
| "step e ToggleMute s = toggleMute e s"
| "step e (UtteranceStart u h) s = utterance_onstart u h s"
| "step e (UtteranceEnd u) s = utterance_onend u s"
| "step e (UtteranceError u err) s = utterance_onerror u err s"
| "step e (IntervalTick i) s = mouthTick i s"
| "step e (VoicesChanged vs) s = handleVoicesChanged vs s"

fun run :: "env \<Rightarrow> event list \<Rightarrow> engine \<Rightarrow> engine" where
  "run e [] s = s"
| "run e (ev # evs) s = run e evs (step e ev s)"

text \<open>The values the hook returns to the component that uses it.\<close>

definition observable :: "engine \<Rightarrow> bool \<times> bool \<times> string \<times> string" where
  "observable s = (isMuted s, isSpeaking s, spokenText s, mouthShape s)"

text \<open>The callbacks handed to \<open>speak\<close> in a run, in call order.\<close>

fun callbacks :: "event list \<Rightarrow> nat list" where
  "callbacks [] = []"
| "callbacks (Speak tos (Some cb) langArg speaking # evs) = cb # callbacks evs"
| "callbacks (ev # evs) = callbacks evs"

text \<open>The events the platform delivers, and among them those that end a unit.\<close>

fun lifecycle :: "event \<Rightarrow> bool" where
  "lifecycle (UtteranceStart u h) = True"
| "lifecycle (UtteranceEnd u) = True"
| "lifecycle (UtteranceError u err) = True"
| "lifecycle (IntervalTick i) = True"
| "lifecycle ev = False"

fun ends :: "event list \<Rightarrow> nat" where
  "ends [] = 0"
| "ends (UtteranceEnd u # evs) = Suc (ends evs)"
| "ends (UtteranceError u err # evs) = Suc (ends evs)"
| "ends (ev # evs) = ends evs"


fun speakEvent :: "event \<Rightarrow> bool" where
  "speakEvent (Speak tos onEnd langArg speaking) = True"
| "speakEvent ev = False"

text \<open>
  Runs with the caller's code, in which \<open>speak\<close> may also be called through a function
  kept from any earlier render: \<open>Occurs\<close> is an event as above (a \<open>speak\<close> being that
  of the latest render), \<open>SpeakFrom c\<close> a call of the \<open>speak\<close> that captured \<open>c\<close>.
  What a handler throws goes to whoever called it; the state stays as the handler left it.
\<close>

datatype occurrence =
    Occurs event
  | SpeakFrom closure textOrSegments "nat option" "string option" bool

fun step_full :: "callerCode \<Rightarrow> env \<Rightarrow> occurrence \<Rightarrow> engine \<Rightarrow> engine" where
  "step_full code e (SpeakFrom c tos onEnd langArg speaking) s =
     snd (speak_full code c e tos onEnd langArg speaking s)"
| "step_full code e (Occurs (Speak tos onEnd langArg speaking)) s =
     snd (speak_full code (latest s) e tos onEnd langArg speaking s)"
| "step_full code e (Occurs Cancel) s = cancel e s"
| "step_full code e (Occurs ToggleMute) s = toggleMute e s"
| "step_full code e (Occurs (UtteranceStart u h)) s = utterance_onstart u h s"
| "step_full code e (Occurs (UtteranceEnd u)) s = snd (utterance_onend_full code u s)"
| "step_full code e (Occurs (UtteranceError u err)) s = snd (utterance_onerror_full code u err s)"
| "step_full code e (Occurs (IntervalTick i)) s = mouthTick i s"
| "step_full code e (Occurs (VoicesChanged vs)) s = handleVoicesChanged vs s"

fun run_full :: "callerCode \<Rightarrow> env \<Rightarrow> occurrence list \<Rightarrow> engine \<Rightarrow> engine" where
  "run_full code e [] s = s"
| "run_full code e (oc # ocs) s = run_full code e ocs (step_full code e oc s)"


text \<open>An environment to run the hook in: two languages, speech available.\<close>

definition browser :: env where
  "browser = \<lparr>globalLanguage = ''en'',
     bcp47LanguageMap = [(''en'', ''en-US''), (''hi'', ''hi-IN'')],
     hasSpeechSynthesis = True\<rparr>"

section \<open>Facts about the handlers\<close>

subsection \<open>Strings and voice selection\<close>

lemma startsWith_splitFirst: "startsWith t (splitFirst t)"
  unfolding startsWith_def splitFirst_def by (rule takeWhile_eq_take [symmetric])

lemma find_filter_exact:
  "(\<And>v. P v \<Longrightarrow> Q v) \<Longrightarrow> find P (filter Q vs) = find P vs"
  by (induction vs) auto

lemma bestVoice_no_gender:
  assumes "lg \<noteq> ''male''" "lg \<noteq> ''female''"
  shows "bestVoice vs t lg = find (\<lambda>v. voice_lang v = t) vs"
proof -
  have "find (\<lambda>v. voice_lang v = t) (filter (\<lambda>v. startsWith (voice_lang v) (splitFirst t)) vs)
        = find (\<lambda>v. voice_lang v = t) vs"
    by (rule find_filter_exact) (simp add: startsWith_splitFirst)
  with assms show ?thesis by (simp add: bestVoice_def)
qed



subsection \<open>What each handler does to each field\<close>

lemma clearMouthShapeInterval_fields [simp]:
  "isMuted (clearMouthShapeInterval s) = isMuted s"
  "isSpeaking (clearMouthShapeInterval s) = isSpeaking s"
  "spokenText (clearMouthShapeInterval s) = spokenText s"
  "mouthShape (clearMouthShapeInterval s) = mouthShape s"
  "voices (clearMouthShapeInterval s) = voices s"
  "utteranceQueue (clearMouthShapeInterval s) = utteranceQueue s"
  "onEndCallback (clearMouthShapeInterval s) = onEndCallback s"
  "fired (clearMouthShapeInterval s) = fired s"
  "synthCalls (clearMouthShapeInterval s) = synthCalls s"
  by (simp_all add: clearMouthShapeInterval_def split: option.splits)

lemma clearMouthShapeInterval_idem [simp]:
  "clearMouthShapeInterval (clearMouthShapeInterval s) = clearMouthShapeInterval s"
  by (simp add: clearMouthShapeInterval_def split: option.splits)

lemma cancel_fields [simp]:
  "isMuted (cancel e s) = isMuted s"
  "isSpeaking (cancel e s) = False"
  "spokenText (cancel e s) = spokenText s"
  "mouthShape (cancel e s) = ''X''"
  "voices (cancel e s) = voices s"
  "utteranceQueue (cancel e s) = []"
  "onEndCallback (cancel e s) = None"
  "fired (cancel e s) = fired s"
  "synthCalls (cancel e s) = synthCalls s @ (if hasSpeechSynthesis e then [SynthCancel] else [])"
  by (simp_all add: cancel_def Let_def)

lemma cancel_interval:
  "mouthShapeInterval (cancel e s) = (if mouthShapeInterval s = Some 0 then Some 0 else None)"
  by (simp add: cancel_def Let_def clearMouthShapeInterval_def split: option.splits)

lemma processQueue_fields [simp]:
  "isMuted (processQueue s) = isMuted s"
  "spokenText (processQueue s) = spokenText s"
  "voices (processQueue s) = voices s"
  "utteranceQueue (processQueue s) = tl (utteranceQueue s)"
  "synthCalls (processQueue s) = synthCalls s @ map SynthSpeak (take 1 (utteranceQueue s))"
  by (simp_all add: processQueue_def Let_def split: list.splits option.splits)

lemma processQueue_Cons:
  "utteranceQueue s = u # rest \<Longrightarrow>
   processQueue s = s\<lparr>utteranceQueue := rest, synthCalls := synthCalls s @ [SynthSpeak u]\<rparr>"
  by (simp add: processQueue_def)




lemma invokeOnEnd_fields [simp]:
  "isMuted (invokeOnEnd cb s) = isMuted s"
  "isSpeaking (invokeOnEnd cb s) = isSpeaking s"
  "spokenText (invokeOnEnd cb s) = spokenText s"
  "mouthShape (invokeOnEnd cb s) = mouthShape s"
  "voices (invokeOnEnd cb s) = voices s"
  "utteranceQueue (invokeOnEnd cb s) = utteranceQueue s"
  "onEndCallback (invokeOnEnd cb s) = onEndCallback s"
  "mouthShapeInterval (invokeOnEnd cb s) = mouthShapeInterval s"
  "synthCalls (invokeOnEnd cb s) = synthCalls s"
  "fired (invokeOnEnd cb s) = fired s @ (case cb of Some c \<Rightarrow> [c] | None \<Rightarrow> [])"
  by (simp_all add: invokeOnEnd_def split: option.splits)

subsection \<open>The loop of \<open>speak\<close>\<close>

lemma enqueue_fields:
  "enqueue e lg segs s = (r, s') \<Longrightarrow>
     isMuted s' = isMuted s \<and> isSpeaking s' = isSpeaking s \<and> spokenText s' = spokenText s \<and>
     mouthShape s' = mouthShape s \<and> voices s' = voices s \<and> onEndCallback s' = onEndCallback s \<and>
     mouthShapeInterval s' = mouthShapeInterval s \<and> fired s' = fired s \<and>
     synthCalls s' = synthCalls s"
  by (induction segs arbitrary: s) (auto split: option.splits)

lemma enqueue_queue:
  "enqueue e lg segs s = (Returned, s') \<Longrightarrow>
     \<exists>us. utteranceQueue s' = utteranceQueue s @ us \<and>
          map Some us = map (newUtterance e (voices s) lg) segs"
proof (induction segs arbitrary: s)
  case Nil
  then show ?case by simp
next
  case (Cons seg segs)
  from Cons.prems obtain u where u: "newUtterance e (voices s) lg seg = Some u"
    and rest: "enqueue e lg segs (s\<lparr>utteranceQueue := utteranceQueue s @ [u]\<rparr>) = (Returned, s')"
    by (auto split: option.splits)
  from Cons.IH [OF rest] obtain us where
    q: "utteranceQueue s' = (utteranceQueue s @ [u]) @ us"
    and m: "map Some us = map (newUtterance e (voices s) lg) segs"
    by auto
  have "utteranceQueue s' = utteranceQueue s @ (u # us)" using q by simp
  moreover have "map Some (u # us) = map (newUtterance e (voices s) lg) (seg # segs)"
    using u m by simp
  ultimately show ?case by blast
qed

lemma newUtterance_text: "newUtterance e vs lg seg = Some u \<Longrightarrow> utt_text u = seg_text seg"
  by (auto simp: newUtterance_def split: option.splits if_splits)

lemma enqueue_total_keys:
  "\<forall>sg\<in>set segs. seg_lang sg \<in> fst ` set (bcp47LanguageMap e) \<Longrightarrow>
   fst (enqueue e lg segs s) = Returned"
proof (induction segs arbitrary: s)
  case Nil
  then show ?case by simp
next
  case (Cons seg segs)
  from Cons.prems have "map_of (bcp47LanguageMap e) (seg_lang seg) \<noteq> None"
    by (simp add: map_of_eq_None_iff)
  then obtain u where "newUtterance e (voices s) lg seg = Some u"
    by (auto simp: newUtterance_def)
  with Cons show ?case by simp
qed


subsection \<open>The three ways through \<open>speak\<close>\<close>

lemma speak_suppressed:
  "isMuted s \<or> \<not> hasSpeechSynthesis e \<Longrightarrow>
   speak e tos onEnd la sp s = (Returned, invokeOnEnd onEnd s)"
  by (simp add: speak_def Let_def)

lemma speak_empty:
  "\<not> isMuted s \<Longrightarrow> hasSpeechSynthesis e \<Longrightarrow> normalizeSegments e tos (langOrGenderArg la) = [] \<Longrightarrow>
   speak e tos onEnd la sp s = (Returned, invokeOnEnd onEnd (cancel e s))"
  by (simp add: speak_def Let_def)

lemma speak_started:
  "\<not> isMuted s \<Longrightarrow> hasSpeechSynthesis e \<Longrightarrow> normalizeSegments e tos (langOrGenderArg la) \<noteq> [] \<Longrightarrow>
   speak e tos onEnd la sp s =
     (case enqueue e (langOrGenderArg la) (normalizeSegments e tos (langOrGenderArg la))
             ((cancel e s)\<lparr>spokenText := joinSpace (map seg_text (normalizeSegments e tos (langOrGenderArg la))),
                isSpeaking := True, mouthShape := ''A'', onEndCallback := onEnd\<rparr>) of
        (TypeError, s3) \<Rightarrow> (TypeError, s3)
      | (Returned, s3) \<Rightarrow> (Returned, if \<not> sp then processQueue s3 else s3))"
  by (simp add: speak_def Let_def)

lemma speak_spokenText:
  "spokenText (snd (speak e tos onEnd la sp s)) =
     (if isMuted s \<or> \<not> hasSpeechSynthesis e \<or> normalizeSegments e tos (langOrGenderArg la) = []
      then spokenText s
      else joinSpace (map seg_text (normalizeSegments e tos (langOrGenderArg la))))"
proof (cases "isMuted s \<or> \<not> hasSpeechSynthesis e")
  case True
  then show ?thesis using speak_suppressed [OF True, of tos onEnd la sp] by auto
next
  case False
  note live = this
  show ?thesis
  proof (cases "normalizeSegments e tos (langOrGenderArg la) = []")
    case True
    with live show ?thesis by (simp add: speak_empty)
  next
    case False
    let ?s2 = "(cancel e s)\<lparr>spokenText := joinSpace (map seg_text (normalizeSegments e tos (langOrGenderArg la))),
                isSpeaking := True, mouthShape := ''A'', onEndCallback := onEnd\<rparr>"
    obtain r s3 where en: "enqueue e (langOrGenderArg la) (normalizeSegments e tos (langOrGenderArg la)) ?s2 = (r, s3)"
      by (cases "enqueue e (langOrGenderArg la) (normalizeSegments e tos (langOrGenderArg la)) ?s2")
    from enqueue_fields [OF en] have "spokenText s3 = spokenText ?s2" by simp
    with live False en show ?thesis
      by (cases r) (simp_all add: speak_started)
  qed
qed

lemma step_spokenText:
  "spokenText (step e ev s) =
     (case ev of
        Speak tos onEnd la sp \<Rightarrow>
          if isMuted s \<or> \<not> hasSpeechSynthesis e \<or> normalizeSegments e tos (langOrGenderArg la) = []
          then spokenText s
          else joinSpace (map seg_text (normalizeSegments e tos (langOrGenderArg la)))
      | _ \<Rightarrow> spokenText s)"
  by (cases ev)
     (simp_all add: speak_spokenText toggleMute_def Let_def utterance_onstart_def
        utterance_onend_def utterance_onerror_def mouthTick_def handleVoicesChanged_def)

lemma run_spokenText:
  "\<forall>ev\<in>set evs. \<not> speakEvent ev \<Longrightarrow> spokenText (run e evs s) = spokenText s"
proof (induction evs arbitrary: s)
  case Nil
  then show ?case by simp
next
  case (Cons ev evs)
  then have "spokenText (step e ev s) = spokenText s"
    by (cases ev) (simp_all add: step_spokenText del: step.simps)
  with Cons show ?case by simp
qed

subsection \<open>Runs of platform events\<close>

lemma step_lifecycle:
  "lifecycle ev \<Longrightarrow>
   synthCalls (step e ev s) = synthCalls s @ map SynthSpeak (take (ends [ev]) (utteranceQueue s)) \<and>
   utteranceQueue (step e ev s) = drop (ends [ev]) (utteranceQueue s)"
  by (cases ev)
     (simp_all add: utterance_onstart_def utterance_onend_def utterance_onerror_def mouthTick_def
        drop_Suc)

lemma ends_Cons: "ends (ev # evs) = ends [ev] + ends evs"
  by (cases ev) simp_all

lemma run_lifecycle:
  "\<forall>ev\<in>set evs. lifecycle ev \<Longrightarrow>
   synthCalls (run e evs s) = synthCalls s @ map SynthSpeak (take (ends evs) (utteranceQueue s)) \<and>
   utteranceQueue (run e evs s) = drop (ends evs) (utteranceQueue s)"
proof (induction evs arbitrary: s)
  case Nil
  then show ?case by simp
next
  case (Cons ev evs)
  then have lc: "lifecycle ev" and rest: "\<forall>ev\<in>set evs. lifecycle ev" by simp_all
  note st = step_lifecycle [OF lc, of e s]
  note ih = Cons.IH [OF rest, of "step e ev s"]
  have tk: "map SynthSpeak (take (ends [ev]) (utteranceQueue s)) @
            map SynthSpeak (take (ends evs) (drop (ends [ev]) (utteranceQueue s)))
        = map SynthSpeak (take (ends [ev] + ends evs) (utteranceQueue s))"
    by (simp add: take_add)
  have calls: "synthCalls (run e (ev # evs) s) =
      synthCalls s @ map SynthSpeak (take (ends (ev # evs)) (utteranceQueue s))"
    using st ih tk by (simp add: ends_Cons [of ev evs])
  have queue: "utteranceQueue (run e (ev # evs) s) = drop (ends (ev # evs)) (utteranceQueue s)"
    using st ih by (simp add: ends_Cons [of ev evs] add.commute)
  from calls queue show ?case by blast
qed


subsection \<open>The callback bookkeeping is kept by every event\<close>







lemma callbacks_Cons: "callbacks (ev # evs) = callbacks [ev] @ callbacks evs"
  by (rule callbacks.cases [of "ev # evs"]) auto



subsection \<open>What \<open>speak\<close> hands to the platform\<close>

lemma newUtterance_texts:
  "map Some us = map (newUtterance e vs lg) segs \<Longrightarrow> map utt_text us = map seg_text segs"
proof (induction us arbitrary: segs)
  case Nil
  then show ?case by simp
next
  case (Cons u us)
  then obtain seg rest where segs: "segs = seg # rest" by (cases segs) auto
  with Cons.prems have "newUtterance e vs lg seg = Some u" "map Some us = map (newUtterance e vs lg) rest"
    by simp_all
  with Cons.IH [of rest] segs show ?case by (simp add: newUtterance_text)
qed

lemma run_append: "run e (xs @ ys) s = run e ys (run e xs s)"
  by (induction xs arbitrary: s) simp_all

lemma speak_handover:
  assumes live: "\<not> isMuted s" "hasSpeechSynthesis e"
    and ret: "speak e tos onEnd la sp s = (Returned, s1)"
  shows "\<exists>us. map Some us = map (newUtterance e (voices s) (langOrGenderArg la))
                           (normalizeSegments e tos (langOrGenderArg la)) \<and>
           map utt_text us = map seg_text (normalizeSegments e tos (langOrGenderArg la)) \<and>
           synthCalls s1 = synthCalls s @ [SynthCancel] @ map SynthSpeak (take (if sp then 0 else 1) us) \<and>
           utteranceQueue s1 = drop (if sp then 0 else 1) us"
proof (cases "normalizeSegments e tos (langOrGenderArg la) = []")
  case True
  from speak_empty [OF live True, of onEnd sp] ret have "s1 = invokeOnEnd onEnd (cancel e s)" by simp
  then have "synthCalls s1 = synthCalls s @ [SynthCancel]" "utteranceQueue s1 = []"
    using live by simp_all
  with True show ?thesis by (intro exI [of _ "[]"]) simp
next
  case False
  let ?segs = "normalizeSegments e tos (langOrGenderArg la)"
  let ?s2 = "(cancel e s)\<lparr>spokenText := joinSpace (map seg_text ?segs),
                isSpeaking := True, mouthShape := ''A'', onEndCallback := onEnd\<rparr>"
  obtain r s3 where en: "enqueue e (langOrGenderArg la) ?segs ?s2 = (r, s3)"
    by (cases "enqueue e (langOrGenderArg la) ?segs ?s2")
  from ret en have r: "r = Returned" and s1: "s1 = (if \<not> sp then processQueue s3 else s3)"
    by (cases r; simp add: speak_started [OF live False])+
  from enqueue_queue [OF en [unfolded r]] obtain us where
    q: "utteranceQueue s3 = us" and m: "map Some us = map (newUtterance e (voices ?s2) (langOrGenderArg la)) ?segs"
    by auto
  from enqueue_fields [OF en] live have c: "synthCalls s3 = synthCalls s @ [SynthCancel]" by simp
  have texts: "map utt_text us = map seg_text ?segs" using m by (rule newUtterance_texts)
  have m': "map Some us = map (newUtterance e (voices s) (langOrGenderArg la)) ?segs" using m by simp
  have "synthCalls s1 = synthCalls s @ [SynthCancel] @ map SynthSpeak (take (if sp then 0 else 1) us)"
    using s1 c q by simp
  moreover have "utteranceQueue s1 = drop (if sp then 0 else 1) us"
    using s1 q by (simp add: drop_Suc)
  ultimately show ?thesis using texts m' by blast
qed

lemma speak_returns:
  assumes keys: "\<forall>sg\<in>set (normalizeSegments e tos (langOrGenderArg la)).
                   seg_lang sg \<in> fst ` set (bcp47LanguageMap e)"
  shows "fst (speak e tos onEnd la sp s) = Returned"
proof (cases "isMuted s \<or> \<not> hasSpeechSynthesis e")
  case True
  then show ?thesis using speak_suppressed [OF True, of tos onEnd la sp] by simp
next
  case False
  then have live: "\<not> isMuted s" "hasSpeechSynthesis e" by simp_all
  let ?segs = "normalizeSegments e tos (langOrGenderArg la)"
  show ?thesis
  proof (cases "?segs = []")
    case True
    then show ?thesis using speak_empty [OF live True, of onEnd sp] by simp
  next
    case False
    let ?s2 = "(cancel e s)\<lparr>spokenText := joinSpace (map seg_text ?segs),
                isSpeaking := True, mouthShape := ''A'', onEndCallback := onEnd\<rparr>"
    from enqueue_total_keys [OF keys, of "langOrGenderArg la" ?s2]
    obtain s3 where "enqueue e (langOrGenderArg la) ?segs ?s2 = (Returned, s3)"
      by (metis prod.collapse)
    then show ?thesis by (simp add: speak_started [OF live False])
  qed
qed

lemma handover_after_events:
  "\<not> isMuted s \<and> hasSpeechSynthesis e \<and> speak e tos onEnd la sp s = (Returned, s1) \<and>
   (\<forall>ev\<in>set evs. lifecycle ev) \<longrightarrow>
     (\<exists>us. map Some us = map (newUtterance e (voices s) (langOrGenderArg la))
                        (normalizeSegments e tos (langOrGenderArg la)) \<and>
        map utt_text us = map seg_text (normalizeSegments e tos (langOrGenderArg la)) \<and>
        synthCalls (run e evs s1) =
          synthCalls s @ [SynthCancel] @ map SynthSpeak (take ((if sp then 0 else 1) + ends evs) us) \<and>
        utteranceQueue (run e evs s1) = drop ((if sp then 0 else 1) + ends evs) us)"
proof (intro impI)
  assume a: "\<not> isMuted s \<and> hasSpeechSynthesis e \<and> speak e tos onEnd la sp s = (Returned, s1) \<and>
   (\<forall>ev\<in>set evs. lifecycle ev)"
  then have live: "\<not> isMuted s" "hasSpeechSynthesis e"
    and ret: "speak e tos onEnd la sp s = (Returned, s1)"
    and lc: "\<forall>ev\<in>set evs. lifecycle ev" by simp_all
  from speak_handover [OF live ret] obtain us where
    utts: "map Some us = map (newUtterance e (voices s) (langOrGenderArg la))
                        (normalizeSegments e tos (langOrGenderArg la))"
    and texts: "map utt_text us = map seg_text (normalizeSegments e tos (langOrGenderArg la))"
    and c: "synthCalls s1 = synthCalls s @ [SynthCancel] @ map SynthSpeak (take (if sp then 0 else 1) us)"
    and q: "utteranceQueue s1 = drop (if sp then 0 else 1) us" by blast
  let ?k = "if sp then 0 else 1 :: nat"
  from run_lifecycle [OF lc, of e s1]
  have rc: "synthCalls (run e evs s1) = synthCalls s1 @ map SynthSpeak (take (ends evs) (utteranceQueue s1))"
    and rq: "utteranceQueue (run e evs s1) = drop (ends evs) (utteranceQueue s1)" by simp_all
  have "take ?k us @ take (ends evs) (drop ?k us) = take (?k + ends evs) us"
    by (simp add: take_add)
  then have "map SynthSpeak (take ?k us) @ map SynthSpeak (take (ends evs) (drop ?k us))
      = map SynthSpeak (take (?k + ends evs) us)"
    by (metis map_append)
  with rc c q have "synthCalls (run e evs s1) =
          synthCalls s @ [SynthCancel] @ map SynthSpeak (take (?k + ends evs) us)"
    by simp
  moreover from rq q have "utteranceQueue (run e evs s1) = drop (?k + ends evs) us"
    by (simp add: add.commute)
  ultimately show "\<exists>us. map Some us = map (newUtterance e (voices s) (langOrGenderArg la))
                        (normalizeSegments e tos (langOrGenderArg la)) \<and>
        map utt_text us = map seg_text (normalizeSegments e tos (langOrGenderArg la)) \<and>
        synthCalls (run e evs s1) =
          synthCalls s @ [SynthCancel] @ map SynthSpeak (take ((if sp then 0 else 1) + ends evs) us) \<and>
        utteranceQueue (run e evs s1) = drop ((if sp then 0 else 1) + ends evs) us"
    using texts utts by blast
qed


subsection \<open>The handlers with the caller's code\<close>

text \<open>
  For callbacks that only return and the \<open>speak\<close> of the latest render, the handlers
  with the caller's code are \<open>processQueue\<close>, \<open>speak\<close> and the runs above.
\<close>

lemma invokeOnEnd_full_inert:
  "invokeOnEnd_full inert onEnd s = (Completed, invokeOnEnd onEnd s)"
  by (cases onEnd) (simp_all add: invokeOnEnd_full_def invokeOnEnd_def inert_def)

lemma processQueue_full_inert:
  "processQueue_full inert s = (Completed, processQueue s)"
  by (simp add: processQueue_full_def processQueue_def inert_def Let_def
        split: list.splits option.splits)

lemma processQueue_full_Cons:
  "utteranceQueue s = u # rest \<Longrightarrow>
   processQueue_full code s =
     (Completed, s\<lparr>utteranceQueue := rest, synthCalls := synthCalls s @ [SynthSpeak u]\<rparr>)"
  by (simp add: processQueue_full_def)

lemma enqueue_full_fields:
  "enqueue_full vs e lg segs s = (r, s') \<Longrightarrow>
     isMuted s' = isMuted s \<and> isSpeaking s' = isSpeaking s \<and> spokenText s' = spokenText s \<and>
     mouthShape s' = mouthShape s \<and> voices s' = voices s \<and> onEndCallback s' = onEndCallback s \<and>
     mouthShapeInterval s' = mouthShapeInterval s \<and> fired s' = fired s \<and>
     synthCalls s' = synthCalls s"
  by (induction segs arbitrary: s) (auto split: option.splits)

lemma enqueue_full_nonempty:
  "enqueue_full vs e lg segs s = (Completed, s') \<Longrightarrow> segs \<noteq> [] \<Longrightarrow> utteranceQueue s' \<noteq> []"
proof (induction segs arbitrary: s)
  case Nil
  then show ?case by simp
next
  case (Cons seg segs)
  from Cons.prems obtain u where u: "newUtterance e vs lg seg = Some u"
    and rest: "enqueue_full vs e lg segs (s\<lparr>utteranceQueue := utteranceQueue s @ [u]\<rparr>) = (Completed, s')"
    by (auto split: option.splits)
  show ?case
  proof (cases segs)
    case Nil
    with rest show ?thesis by auto
  next
    case (Cons a list)
    with Cons.IH [OF rest] show ?thesis by simp
  qed
qed

lemma enqueue_full_latest:
  "enqueue_full (voices s) e lg segs s =
     ((case fst (enqueue e lg segs s) of Returned \<Rightarrow> Completed | TypeError \<Rightarrow> Threw),
      snd (enqueue e lg segs s))"
proof (induction segs arbitrary: s)
  case Nil
  then show ?case by simp
next
  case (Cons seg segs)
  show ?case
  proof (cases "newUtterance e (voices s) lg seg")
    case None
    then show ?thesis by simp
  next
    case (Some u)
    with Cons.IH [of "s\<lparr>utteranceQueue := utteranceQueue s @ [u]\<rparr>"] show ?thesis by simp
  qed
qed

lemma speak_full_latest:
  "speak_full inert (latest s) e tos onEnd la sp s =
     ((case fst (speak e tos onEnd la sp s) of Returned \<Rightarrow> Completed | TypeError \<Rightarrow> Threw),
      snd (speak e tos onEnd la sp s))"
proof -
  let ?segs = "normalizeSegments e tos (langOrGenderArg la)"
  let ?s2 = "(cancel e s)\<lparr>spokenText := joinSpace (map seg_text ?segs),
                isSpeaking := True, mouthShape := ''A'', onEndCallback := onEnd\<rparr>"
  have v: "voices ?s2 = voices s" by simp
  note en = enqueue_full_latest [of ?s2 e "langOrGenderArg la" ?segs, unfolded v]
  show ?thesis
    by (cases "enqueue e (langOrGenderArg la) ?segs ?s2"; cases "fst (enqueue e (langOrGenderArg la) ?segs ?s2)")
       (simp_all add: speak_full_def speak_def latest_def Let_def invokeOnEnd_full_inert
          processQueue_full_inert en)
qed

lemma step_full_inert: "step_full inert e (Occurs ev) s = step e ev s"
  by (cases ev)
     (simp_all add: speak_full_latest utterance_onend_full_def utterance_onerror_full_def
        utterance_onend_def utterance_onerror_def processQueue_full_inert)

lemma run_full_inert: "run_full inert e (map Occurs evs) s = run e evs s"
  by (induction evs arbitrary: s) (simp_all add: step_full_inert)


lemma speak_full_suppressed:
  "seen_isMuted c \<or> \<not> hasSpeechSynthesis e \<Longrightarrow>
   speak_full code c e tos onEnd la sp s = invokeOnEnd_full code onEnd s"
  by (simp add: speak_full_def Let_def)


lemma speak_full_started:
  "\<not> seen_isMuted c \<Longrightarrow> hasSpeechSynthesis e \<Longrightarrow> normalizeSegments e tos (langOrGenderArg la) \<noteq> [] \<Longrightarrow>
   speak_full code c e tos onEnd la sp s =
     (case enqueue_full (seen_voices c) e (langOrGenderArg la) (normalizeSegments e tos (langOrGenderArg la))
             ((cancel e s)\<lparr>spokenText := joinSpace (map seg_text (normalizeSegments e tos (langOrGenderArg la))),
                isSpeaking := True, mouthShape := ''A'', onEndCallback := onEnd\<rparr>) of
        (Threw, s3) \<Rightarrow> (Threw, s3)
      | (Completed, s3) \<Rightarrow> if \<not> sp then processQueue_full code s3 else (Completed, s3))"
  by (simp add: speak_full_def Let_def)

lemma speak_full_started_state:
  assumes live: "\<not> seen_isMuted c" "hasSpeechSynthesis e"
    and segs: "normalizeSegments e tos (langOrGenderArg la) \<noteq> []"
  shows "fired (snd (speak_full code c e tos onEnd la sp s)) = fired s \<and>
         onEndCallback (snd (speak_full code c e tos onEnd la sp s)) = onEnd \<and>
         isSpeaking (snd (speak_full code c e tos onEnd la sp s)) \<and>
         mouthShape (snd (speak_full code c e tos onEnd la sp s)) = ''A'' \<and>
         spokenText (snd (speak_full code c e tos onEnd la sp s)) =
           joinSpace (map seg_text (normalizeSegments e tos (langOrGenderArg la)))"
proof -
  let ?segs = "normalizeSegments e tos (langOrGenderArg la)"
  let ?s2 = "(cancel e s)\<lparr>spokenText := joinSpace (map seg_text ?segs),
                isSpeaking := True, mouthShape := ''A'', onEndCallback := onEnd\<rparr>"
  obtain r s3 where en: "enqueue_full (seen_voices c) e (langOrGenderArg la) ?segs ?s2 = (r, s3)"
    by (cases "enqueue_full (seen_voices c) e (langOrGenderArg la) ?segs ?s2")
  note f = enqueue_full_fields [OF en]
  show ?thesis
  proof (cases r)
    case Completed
    with en segs have "utteranceQueue s3 \<noteq> []" by (auto dest: enqueue_full_nonempty)
    then obtain u rest where q: "utteranceQueue s3 = u # rest" by (cases "utteranceQueue s3") auto
    from Completed en f show ?thesis
      by (simp add: speak_full_started [OF live segs] processQueue_full_Cons [OF q])
  next
    case Threw
    with en f show ?thesis by (simp add: speak_full_started [OF live segs])
  qed
qed








section \<open>The claims\<close>

subsection \<open>C1: how often a stored completion callback fires\<close>


text \<open>
  What the callback's own code does matters too, because \<open>processQueue\<close> runs it
  before it clears the ref. A callback that throws is never cleared, and the next end or
  error event that finds the queue empty invokes it again. A callback that starts the
  next request by calling \<open>speak\<close> with a callback of its own has that second
  callback cleared as soon as it returns, so the second callback is never invoked.
\<close>

lemma throwing_onEnd_fires_again:
  "fired (run_full (\<lambda>cb s. (Threw, s)) browser
     [Occurs (Speak (Text ''hello'') (Some 1) None False),
      Occurs (UtteranceEnd \<lparr>utt_text = ''hello'', utt_lang = ''en-US'', utt_voice = None\<rparr>),
      Occurs (UtteranceError \<lparr>utt_text = ''hello'', utt_lang = ''en-US'', utt_voice = None\<rparr> ''late'')]
     initial) = [1, 1]"
  by code_simp

lemma chained_onEnd_is_cleared:
  "onEndCallback (run_full
     (\<lambda>cb s. if cb = 1 then speak_full inert (latest s) browser (Text ''next'') (Some 2) None False s
              else (Completed, s)) browser
     [Occurs (Speak (Text ''hello'') (Some 1) None False),
      Occurs (UtteranceEnd \<lparr>utt_text = ''hello'', utt_lang = ''en-US'', utt_voice = None\<rparr>)]
     initial) = None
   \<and> fired (run_full
     (\<lambda>cb s. if cb = 1 then speak_full inert (latest s) browser (Text ''next'') (Some 2) None False s
              else (Completed, s)) browser
     [Occurs (Speak (Text ''hello'') (Some 1) None False),
      Occurs (UtteranceEnd \<lparr>utt_text = ''hello'', utt_lang = ''en-US'', utt_voice = None\<rparr>),
      Occurs (UtteranceEnd \<lparr>utt_text = ''next'', utt_lang = ''en-US'', utt_voice = None\<rparr>)]
     initial) = [1]"
  by code_simp



subsection \<open>C2: lifecycle events of cancelled units\<close>




subsection \<open>C3: voice selection without a gender hint\<close>

text \<open>
  C3 says that without a gender hint the exact locale match is chosen, else the first
  voice sharing the primary subtag, and no voice only if there is none of those. The code
  takes \<open>voiceCandidates.find(v => v.lang === bcp47Lang)\<close> and nothing else: for the
  target \<open>en-US\<close> and the one voice \<open>en-GB\<close>, that voice is a candidate and yet no
  voice is chosen.
\<close>

theorem no_exact_match_no_voice:
  "filter (\<lambda>v. startsWith (voice_lang v) (splitFirst ''en-US''))
      [\<lparr>voice_name = ''Daniel'', voice_lang = ''en-GB''\<rparr>]
     = [\<lparr>voice_name = ''Daniel'', voice_lang = ''en-GB''\<rparr>]
   \<and> bestVoice [\<lparr>voice_name = ''Daniel'', voice_lang = ''en-GB''\<rparr>] ''en-US'' ''en'' = None"
  by code_simp

text \<open>
  C3 as the code has it: when \<open>langOrGender\<close> is neither \<open>male\<close> nor
  \<open>female\<close>, the voice chosen is the first candidate whose locale equals the target,
  which is the first voice of the whole list with that locale; no voice is chosen exactly
  when no voice has the target locale.
\<close>

theorem bestVoice_without_gender:
  "langOrGender \<noteq> ''male'' \<and> langOrGender \<noteq> ''female'' \<longrightarrow>
     bestVoice vs bcp47Lang langOrGender =
       find (\<lambda>v. voice_lang v = bcp47Lang)
         (filter (\<lambda>v. startsWith (voice_lang v) (splitFirst bcp47Lang)) vs)
     \<and> bestVoice vs bcp47Lang langOrGender = find (\<lambda>v. voice_lang v = bcp47Lang) vs
     \<and> (bestVoice vs bcp47Lang langOrGender = None \<longleftrightarrow> (\<forall>v\<in>set vs. voice_lang v \<noteq> bcp47Lang))"
proof (intro impI)
  assume ng: "langOrGender \<noteq> ''male'' \<and> langOrGender \<noteq> ''female''"
  then have all: "bestVoice vs bcp47Lang langOrGender = find (\<lambda>v. voice_lang v = bcp47Lang) vs"
    by (simp add: bestVoice_no_gender)
  have cand: "find (\<lambda>v. voice_lang v = bcp47Lang)
         (filter (\<lambda>v. startsWith (voice_lang v) (splitFirst bcp47Lang)) vs)
      = find (\<lambda>v. voice_lang v = bcp47Lang) vs"
    by (rule find_filter_exact) (simp add: startsWith_splitFirst)
  have none: "find (\<lambda>v. voice_lang v = bcp47Lang) vs = None \<longleftrightarrow> (\<forall>v\<in>set vs. voice_lang v \<noteq> bcp47Lang)"
    by (auto simp: find_None_iff)
  from all cand none show
    "bestVoice vs bcp47Lang langOrGender =
       find (\<lambda>v. voice_lang v = bcp47Lang)
         (filter (\<lambda>v. startsWith (voice_lang v) (splitFirst bcp47Lang)) vs)
     \<and> bestVoice vs bcp47Lang langOrGender = find (\<lambda>v. voice_lang v = bcp47Lang) vs
     \<and> (bestVoice vs bcp47Lang langOrGender = None \<longleftrightarrow> (\<forall>v\<in>set vs. voice_lang v \<noteq> bcp47Lang))"
    by simp
qed

text \<open>
  The theorem at the default \<open>en\<close> and a list of two English voices.
\<close>

theorem bestVoice_without_gender_witness:
  "''en'' \<noteq> ''male'' \<and> ''en'' \<noteq> ''female'' \<and>
   bestVoice [\<lparr>voice_name = ''Daniel'', voice_lang = ''en-GB''\<rparr>,
              \<lparr>voice_name = ''Samantha'', voice_lang = ''en-US''\<rparr>] ''en-US'' ''en''
     = Some \<lparr>voice_name = ''Samantha'', voice_lang = ''en-US''\<rparr>"
proof -
  have h: "''en'' \<noteq> ''male'' \<and> ''en'' \<noteq> ''female''" by simp
  from h bestVoice_without_gender [where langOrGender = "''en''" and bcp47Lang = "''en-US''"
      and vs = "[\<lparr>voice_name = ''Daniel'', voice_lang = ''en-GB''\<rparr>,
              \<lparr>voice_name = ''Samantha'', voice_lang = ''en-US''\<rparr>]"]
  have "bestVoice [\<lparr>voice_name = ''Daniel'', voice_lang = ''en-GB''\<rparr>,
              \<lparr>voice_name = ''Samantha'', voice_lang = ''en-US''\<rparr>] ''en-US'' ''en''
        = find (\<lambda>v. voice_lang v = ''en-US'')
            [\<lparr>voice_name = ''Daniel'', voice_lang = ''en-GB''\<rparr>,
             \<lparr>voice_name = ''Samantha'', voice_lang = ''en-US''\<rparr>]"
    by blast
  then show ?thesis using h by simp
qed

subsection \<open>C4: the precedence example\<close>

text \<open>
  C4 gives the catalog of a voice \<open>A\<close> (locale \<open>en-GB\<close>, label \<open>male\<close>) and a
  voice \<open>B\<close> (locale \<open>en-US\<close>, label \<open>female\<close>) and says that \<open>en-GB\<close> with the
  hint \<open>female\<close> selects \<open>A\<close>. A platform voice has no label apart from its name,
  and the hook looks for the hint in \<open>v.name.toLowerCase()\<close>, so the two voices are
  named \<open>A (male)\<close> and \<open>B (female)\<close> here. The gender filter runs over all
  candidates of the primary subtag \<open>en\<close>; \<open>B\<close> passes it, so the filtered list is not
  empty and its first voice is chosen: the code selects \<open>B\<close>, not \<open>A\<close>.
\<close>

theorem gender_beats_exact_locale:
  "bestVoice [\<lparr>voice_name = ''A (male)'', voice_lang = ''en-GB''\<rparr>,
              \<lparr>voice_name = ''B (female)'', voice_lang = ''en-US''\<rparr>] ''en-GB'' ''female''
     = Some \<lparr>voice_name = ''B (female)'', voice_lang = ''en-US''\<rparr>
   \<and> bestVoice [\<lparr>voice_name = ''A (male)'', voice_lang = ''en-GB''\<rparr>,
              \<lparr>voice_name = ''B (female)'', voice_lang = ''en-US''\<rparr>] ''en-GB'' ''female''
     \<noteq> Some \<lparr>voice_name = ''A (male)'', voice_lang = ''en-GB''\<rparr>"
  by code_simp

text \<open>
  C4 as the code has it, for any names of the two voices: \<open>en-US\<close> without a gender
  hint selects \<open>B\<close>; \<open>en-GB\<close> with the hint \<open>female\<close> selects \<open>B\<close> when the
  name of \<open>B\<close> contains \<open>female\<close> and the name of \<open>A\<close> does not; the hint is
  dropped, and \<open>A\<close> selected, only when the name of \<open>A\<close> contains it or the name
  of \<open>B\<close> does not.
\<close>

theorem voice_precedence:
  "(langOrGender \<noteq> ''male'' \<and> langOrGender \<noteq> ''female'' \<longrightarrow>
      bestVoice [\<lparr>voice_name = nameA, voice_lang = ''en-GB''\<rparr>,
                 \<lparr>voice_name = nameB, voice_lang = ''en-US''\<rparr>] ''en-US'' langOrGender
        = Some \<lparr>voice_name = nameB, voice_lang = ''en-US''\<rparr>)
   \<and> (\<not> includesStr (toLowerCase nameA) ''female'' \<and> includesStr (toLowerCase nameB) ''female'' \<longrightarrow>
      bestVoice [\<lparr>voice_name = nameA, voice_lang = ''en-GB''\<rparr>,
                 \<lparr>voice_name = nameB, voice_lang = ''en-US''\<rparr>] ''en-GB'' ''female''
        = Some \<lparr>voice_name = nameB, voice_lang = ''en-US''\<rparr>)
   \<and> (includesStr (toLowerCase nameA') ''female'' \<or> \<not> includesStr (toLowerCase nameB') ''female'' \<longrightarrow>
      bestVoice [\<lparr>voice_name = nameA', voice_lang = ''en-GB''\<rparr>,
                 \<lparr>voice_name = nameB', voice_lang = ''en-US''\<rparr>] ''en-GB'' ''female''
        = Some \<lparr>voice_name = nameA', voice_lang = ''en-GB''\<rparr>)"
proof -
  have a: "langOrGender \<noteq> ''male'' \<and> langOrGender \<noteq> ''female'' \<longrightarrow>
      bestVoice [\<lparr>voice_name = nameA, voice_lang = ''en-GB''\<rparr>,
                 \<lparr>voice_name = nameB, voice_lang = ''en-US''\<rparr>] ''en-US'' langOrGender
        = Some \<lparr>voice_name = nameB, voice_lang = ''en-US''\<rparr>"
    by (simp add: bestVoice_no_gender)
  have b: "\<not> includesStr (toLowerCase nameA) ''female'' \<and> includesStr (toLowerCase nameB) ''female'' \<longrightarrow>
      bestVoice [\<lparr>voice_name = nameA, voice_lang = ''en-GB''\<rparr>,
                 \<lparr>voice_name = nameB, voice_lang = ''en-US''\<rparr>] ''en-GB'' ''female''
        = Some \<lparr>voice_name = nameB, voice_lang = ''en-US''\<rparr>"
    by (simp add: bestVoice_def startsWith_def splitFirst_def)
  have c: "includesStr (toLowerCase nameA') ''female'' \<or> \<not> includesStr (toLowerCase nameB') ''female'' \<longrightarrow>
      bestVoice [\<lparr>voice_name = nameA', voice_lang = ''en-GB''\<rparr>,
                 \<lparr>voice_name = nameB', voice_lang = ''en-US''\<rparr>] ''en-GB'' ''female''
        = Some \<lparr>voice_name = nameA', voice_lang = ''en-GB''\<rparr>"
    by (auto simp: bestVoice_def startsWith_def splitFirst_def)
  from a b c show ?thesis by blast
qed

text \<open>
  The theorem at the names \<open>A (male)\<close> and \<open>B (female)\<close>, and for its last part
  at the bare names \<open>A\<close> and \<open>B\<close>.
\<close>

theorem voice_precedence_witness:
  "''en'' \<noteq> ''male'' \<and> ''en'' \<noteq> ''female''
   \<and> bestVoice [\<lparr>voice_name = ''A (male)'', voice_lang = ''en-GB''\<rparr>,
                 \<lparr>voice_name = ''B (female)'', voice_lang = ''en-US''\<rparr>] ''en-US'' ''en''
        = Some \<lparr>voice_name = ''B (female)'', voice_lang = ''en-US''\<rparr>
   \<and> \<not> includesStr (toLowerCase ''A (male)'') ''female'' \<and> includesStr (toLowerCase ''B (female)'') ''female''
   \<and> bestVoice [\<lparr>voice_name = ''A (male)'', voice_lang = ''en-GB''\<rparr>,
                 \<lparr>voice_name = ''B (female)'', voice_lang = ''en-US''\<rparr>] ''en-GB'' ''female''
        = Some \<lparr>voice_name = ''B (female)'', voice_lang = ''en-US''\<rparr>
   \<and> \<not> includesStr (toLowerCase ''B'') ''female''
   \<and> bestVoice [\<lparr>voice_name = ''A'', voice_lang = ''en-GB''\<rparr>,
                 \<lparr>voice_name = ''B'', voice_lang = ''en-US''\<rparr>] ''en-GB'' ''female''
        = Some \<lparr>voice_name = ''A'', voice_lang = ''en-GB''\<rparr>"
proof -
  have h1: "''en'' \<noteq> ''male'' \<and> ''en'' \<noteq> ''female''" by simp
  have h2: "\<not> includesStr (toLowerCase ''A (male)'') ''female'' \<and> includesStr (toLowerCase ''B (female)'') ''female''"
    by code_simp
  have h3: "\<not> includesStr (toLowerCase ''B'') ''female''" by code_simp
  from h1 h2 h3 voice_precedence [where langOrGender = "''en''" and nameA = "''A (male)''"
      and nameB = "''B (female)''" and nameA' = "''A''" and nameB' = "''B''"]
  show ?thesis by blast
qed

subsection \<open>C5: speak while muted\<close>

text \<open>
  C5 says that every \<open>speak\<close> call made while \<open>isMuted\<close> is true invokes
  \<open>onEnd\<close> at once and changes nothing. \<open>speak\<close> tests the \<open>isMuted\<close> of the
  render that made it, not the present one. Below the hook is muted, and then the
  \<open>speak\<close> of the render before the mute is called: \<open>isMuted\<close> is true, yet the
  call goes ahead, sets \<open>isSpeaking\<close>, \<open>spokenText\<close> and the mouth shape \<open>A\<close>,
  and does not invoke \<open>onEnd\<close>.
\<close>

theorem stale_speak_goes_ahead_while_muted:
  "isMuted (run_full inert browser [Occurs ToggleMute] initial)
   \<and> \<not> seen_isMuted (latest initial)
   \<and> isMuted (run_full inert browser
        [Occurs ToggleMute, SpeakFrom (latest initial) (Text ''hello'') (Some 5) None False] initial)
   \<and> isSpeaking (run_full inert browser
        [Occurs ToggleMute, SpeakFrom (latest initial) (Text ''hello'') (Some 5) None False] initial)
   \<and> spokenText (run_full inert browser
        [Occurs ToggleMute, SpeakFrom (latest initial) (Text ''hello'') (Some 5) None False] initial) = ''hello''
   \<and> mouthShape (run_full inert browser
        [Occurs ToggleMute, SpeakFrom (latest initial) (Text ''hello'') (Some 5) None False] initial) = ''A''
   \<and> fired (run_full inert browser
        [Occurs ToggleMute, SpeakFrom (latest initial) (Text ''hello'') (Some 5) None False] initial) = []"
  by code_simp

text \<open>
  C5 as the code has it. A \<open>speak\<close> whose render saw \<open>isMuted\<close> true returns at
  its first statement: with no \<open>onEnd\<close> the state is unchanged, and a given
  \<open>onEnd\<close> is invoked, before \<open>speak\<close> returns, in a state that differs from the
  one before in nothing but the record of that invocation; if the callback only returns,
  that is the state \<open>speak\<close> leaves. This holds in particular for the \<open>speak\<close> of
  the latest render whenever the hook is muted: \<open>isSpeaking\<close>, \<open>mouthShape\<close> and
  \<open>spokenText\<close> stay as they are and no call reaches the platform. A \<open>speak\<close>
  whose render saw \<open>isMuted\<close> false goes ahead whatever \<open>isMuted\<close> is by now.
\<close>

theorem speak_with_muted_closure:
  "(seen_isMuted c \<longrightarrow>
      speak_full code c e tos None la sp s = (Completed, s) \<and>
      speak_full code c e tos (Some cb) la sp s = code cb (s\<lparr>fired := fired s @ [cb]\<rparr>))
   \<and> ((\<forall>s. code1 cb1 s = (Completed, s)) \<and> seen_isMuted c1 \<longrightarrow>
      speak_full code1 c1 e tos (Some cb1) la sp s1 = (Completed, s1\<lparr>fired := fired s1 @ [cb1]\<rparr>))
   \<and> (isMuted s2 \<longrightarrow>
      speak_full inert (latest s2) e tos onEnd la sp s2 =
        (Completed, s2\<lparr>fired := fired s2 @ (case onEnd of Some cb \<Rightarrow> [cb] | None \<Rightarrow> [])\<rparr>)
      \<and> speak e tos onEnd la sp s2 =
        (Returned, s2\<lparr>fired := fired s2 @ (case onEnd of Some cb \<Rightarrow> [cb] | None \<Rightarrow> [])\<rparr>)
      \<and> isSpeaking (snd (speak e tos onEnd la sp s2)) = isSpeaking s2
      \<and> mouthShape (snd (speak e tos onEnd la sp s2)) = mouthShape s2
      \<and> spokenText (snd (speak e tos onEnd la sp s2)) = spokenText s2
      \<and> synthCalls (snd (speak e tos onEnd la sp s2)) = synthCalls s2)
   \<and> (\<not> seen_isMuted c3 \<and> hasSpeechSynthesis e \<and> normalizeSegments e tos3 (langOrGenderArg la3) \<noteq> [] \<longrightarrow>
      isSpeaking (snd (speak_full code3 c3 e tos3 onEnd3 la3 sp3 s3)) \<and>
      mouthShape (snd (speak_full code3 c3 e tos3 onEnd3 la3 sp3 s3)) = ''A'' \<and>
      spokenText (snd (speak_full code3 c3 e tos3 onEnd3 la3 sp3 s3)) =
        joinSpace (map seg_text (normalizeSegments e tos3 (langOrGenderArg la3))) \<and>
      fired (snd (speak_full code3 c3 e tos3 onEnd3 la3 sp3 s3)) = fired s3)"
proof -
  have a: "seen_isMuted c \<longrightarrow>
      speak_full code c e tos None la sp s = (Completed, s) \<and>
      speak_full code c e tos (Some cb) la sp s = code cb (s\<lparr>fired := fired s @ [cb]\<rparr>)"
    by (simp add: speak_full_suppressed invokeOnEnd_full_def)
  have b: "(\<forall>s. code1 cb1 s = (Completed, s)) \<and> seen_isMuted c1 \<longrightarrow>
      speak_full code1 c1 e tos (Some cb1) la sp s1 = (Completed, s1\<lparr>fired := fired s1 @ [cb1]\<rparr>)"
    by (simp add: speak_full_suppressed invokeOnEnd_full_def)
  have c: "isMuted s2 \<longrightarrow>
      speak_full inert (latest s2) e tos onEnd la sp s2 =
        (Completed, s2\<lparr>fired := fired s2 @ (case onEnd of Some cb \<Rightarrow> [cb] | None \<Rightarrow> [])\<rparr>)
      \<and> speak e tos onEnd la sp s2 =
        (Returned, s2\<lparr>fired := fired s2 @ (case onEnd of Some cb \<Rightarrow> [cb] | None \<Rightarrow> [])\<rparr>)
      \<and> isSpeaking (snd (speak e tos onEnd la sp s2)) = isSpeaking s2
      \<and> mouthShape (snd (speak e tos onEnd la sp s2)) = mouthShape s2
      \<and> spokenText (snd (speak e tos onEnd la sp s2)) = spokenText s2
      \<and> synthCalls (snd (speak e tos onEnd la sp s2)) = synthCalls s2"
  proof
    assume m: "isMuted s2"
    then have sp: "speak e tos onEnd la sp s2 = (Returned, invokeOnEnd onEnd s2)"
      by (simp add: speak_suppressed)
    have i: "invokeOnEnd onEnd s2 = s2\<lparr>fired := fired s2 @ (case onEnd of Some cb \<Rightarrow> [cb] | None \<Rightarrow> [])\<rparr>"
      by (cases onEnd) (simp_all add: invokeOnEnd_def)
    from m have "speak_full inert (latest s2) e tos onEnd la sp s2 = (Completed, invokeOnEnd onEnd s2)"
      by (simp add: speak_full_suppressed latest_def invokeOnEnd_full_inert)
    with sp i show "speak_full inert (latest s2) e tos onEnd la sp s2 =
        (Completed, s2\<lparr>fired := fired s2 @ (case onEnd of Some cb \<Rightarrow> [cb] | None \<Rightarrow> [])\<rparr>)
      \<and> speak e tos onEnd la sp s2 =
        (Returned, s2\<lparr>fired := fired s2 @ (case onEnd of Some cb \<Rightarrow> [cb] | None \<Rightarrow> [])\<rparr>)
      \<and> isSpeaking (snd (speak e tos onEnd la sp s2)) = isSpeaking s2
      \<and> mouthShape (snd (speak e tos onEnd la sp s2)) = mouthShape s2
      \<and> spokenText (snd (speak e tos onEnd la sp s2)) = spokenText s2
      \<and> synthCalls (snd (speak e tos onEnd la sp s2)) = synthCalls s2"
      by simp
  qed
  have d: "\<not> seen_isMuted c3 \<and> hasSpeechSynthesis e \<and> normalizeSegments e tos3 (langOrGenderArg la3) \<noteq> [] \<longrightarrow>
      isSpeaking (snd (speak_full code3 c3 e tos3 onEnd3 la3 sp3 s3)) \<and>
      mouthShape (snd (speak_full code3 c3 e tos3 onEnd3 la3 sp3 s3)) = ''A'' \<and>
      spokenText (snd (speak_full code3 c3 e tos3 onEnd3 la3 sp3 s3)) =
        joinSpace (map seg_text (normalizeSegments e tos3 (langOrGenderArg la3))) \<and>
      fired (snd (speak_full code3 c3 e tos3 onEnd3 la3 sp3 s3)) = fired s3"
    using speak_full_started_state [of c3 e tos3 la3 code3 onEnd3 sp3 s3] by blast
  from a b c d show ?thesis by blast
qed

text \<open>
  The theorem in the muted initial state, for the \<open>speak\<close> of the muted render and
  for the one kept from the render before.
\<close>

theorem speak_with_muted_closure_witness:
  "seen_isMuted (latest (toggleMute browser initial))
   \<and> (\<forall>s. inert 5 s = (Completed, s))
   \<and> speak_full inert (latest (toggleMute browser initial)) browser (Text ''hello'') (Some 5) None False
        (toggleMute browser initial)
       = (Completed, (toggleMute browser initial)\<lparr>fired := [5]\<rparr>)
   \<and> isMuted (toggleMute browser initial)
   \<and> speak browser (Text ''hello'') (Some 5) None False (toggleMute browser initial)
       = (Returned, (toggleMute browser initial)\<lparr>fired := [5]\<rparr>)
   \<and> \<not> seen_isMuted (latest initial) \<and> hasSpeechSynthesis browser
   \<and> normalizeSegments browser (Text ''hello'') (langOrGenderArg None) \<noteq> []
   \<and> isSpeaking (snd (speak_full inert (latest initial) browser (Text ''hello'') (Some 5) None False
        (toggleMute browser initial)))"
proof -
  note t = speak_with_muted_closure [where e = browser and tos = "Text ''hello''" and la = None
      and sp = False and onEnd = "Some 5" and cb = 5
      and code = inert and c = "latest (toggleMute browser initial)" and s = "toggleMute browser initial"
      and ?code1.0 = inert and ?cb1.0 = 5 and ?c1.0 = "latest (toggleMute browser initial)"
      and ?s1.0 = "toggleMute browser initial"
      and ?s2.0 = "toggleMute browser initial"
      and ?code3.0 = inert and ?c3.0 = "latest initial" and ?tos3.0 = "Text ''hello''"
      and ?la3.0 = None and ?onEnd3.0 = "Some 5" and ?sp3.0 = False
      and ?s3.0 = "toggleMute browser initial"]
  have h1: "seen_isMuted (latest (toggleMute browser initial))"
    by (simp add: latest_def toggleMute_def initial_def)
  have h2: "\<forall>s. inert 5 s = (Completed, s)" by (simp add: inert_def)
  have h3: "isMuted (toggleMute browser initial)" by (simp add: toggleMute_def initial_def)
  have h4: "\<not> seen_isMuted (latest initial)" by (simp add: latest_def initial_def)
  have h5: "hasSpeechSynthesis browser" by (simp add: browser_def)
  have h6: "normalizeSegments browser (Text ''hello'') (langOrGenderArg None) \<noteq> []" by code_simp
  have f: "fired (toggleMute browser initial) = []" by (simp add: toggleMute_def initial_def)
  from t h1 h2 have r1: "speak_full inert (latest (toggleMute browser initial)) browser (Text ''hello'') (Some 5) None False
        (toggleMute browser initial)
       = (Completed, (toggleMute browser initial)\<lparr>fired := [5]\<rparr>)"
    using f by simp
  from t h3 have r2: "speak browser (Text ''hello'') (Some 5) None False (toggleMute browser initial)
       = (Returned, (toggleMute browser initial)\<lparr>fired := [5]\<rparr>)"
    using f by simp
  from t h4 h5 h6 have r3: "isSpeaking (snd (speak_full inert (latest initial) browser (Text ''hello'') (Some 5) None False
        (toggleMute browser initial)))"
    by blast
  show ?thesis by (intro conjI) (rule h1 h2 r1 h3 r2 h4 h5 h6 r3)+
qed

subsection \<open>C6: cancel is idempotent\<close>

text \<open>
  C6: a second \<open>cancel\<close> right after a first changes none of the values the hook
  returns (nor the queue, the stored callback, the interval handle or the callbacks
  invoked; it only repeats the call \<open>window.speechSynthesis.cancel()\<close>). When nothing is
  speaking, that is \<open>isSpeaking\<close> is false and the mouth shape is the neutral
  \<open>X\<close>, as in the initial state, \<open>cancel\<close> changes none of the returned values.
\<close>

theorem cancel_idempotent:
  "observable (cancel e (cancel e s)) = observable (cancel e s)
   \<and> utteranceQueue (cancel e (cancel e s)) = utteranceQueue (cancel e s)
   \<and> onEndCallback (cancel e (cancel e s)) = onEndCallback (cancel e s)
   \<and> mouthShapeInterval (cancel e (cancel e s)) = mouthShapeInterval (cancel e s)
   \<and> fired (cancel e (cancel e s)) = fired (cancel e s)
   \<and> (\<not> isSpeaking s1 \<and> mouthShape s1 = ''X'' \<longrightarrow> observable (cancel e s1) = observable s1)
   \<and> observable (cancel e initial) = observable initial"
  by (simp add: observable_def cancel_interval initial_def)

text \<open>
  The theorem after a request has been started: the first \<open>cancel\<close> stops it, the
  second finds the hook idle.
\<close>

theorem cancel_idempotent_witness:
  "isSpeaking (snd (speak browser (Text ''hello'') (Some 5) None False initial))
   \<and> observable (cancel browser (cancel browser (snd (speak browser (Text ''hello'') (Some 5) None False initial))))
       = observable (cancel browser (snd (speak browser (Text ''hello'') (Some 5) None False initial)))
   \<and> \<not> isSpeaking (cancel browser (snd (speak browser (Text ''hello'') (Some 5) None False initial)))
   \<and> mouthShape (cancel browser (snd (speak browser (Text ''hello'') (Some 5) None False initial))) = ''X''
   \<and> observable (cancel browser (cancel browser (snd (speak browser (Text ''hello'') (Some 5) None False initial))))
       = (False, False, ''hello'', ''X'')"
proof -
  have h: "isSpeaking (snd (speak browser (Text ''hello'') (Some 5) None False initial))"
    by code_simp
  have o: "observable (cancel browser (snd (speak browser (Text ''hello'') (Some 5) None False initial)))
       = (False, False, ''hello'', ''X'')"
    by code_simp
  from h o cancel_idempotent [where e = browser
      and s = "snd (speak browser (Text ''hello'') (Some 5) None False initial)"
      and ?s1.0 = "cancel browser (snd (speak browser (Text ''hello'') (Some 5) None False initial))"]
  show ?thesis by simp
qed

subsection \<open>C7: segments are played in order, one at a time\<close>

text \<open>
  C7 says that the controller never starts segment \<open>n + 1\<close> before the end or error
  event of segment \<open>n\<close>. Every end or error event that reaches the hook starts the
  next segment, also the event of a unit cancelled earlier. Below a request \<open>old\<close> is
  superseded by a request of three segments; \<open>speak\<close> hands \<open>one\<close> to the platform,
  and the error event of the cancelled utterance \<open>old\<close> makes the hook hand over
  \<open>two\<close> although no event of \<open>one\<close> has arrived.
\<close>

theorem stale_event_starts_next_segment:
  "synthCalls (run browser
     [Speak (Text ''old'') None None False,
      Speak (Segments [\<lparr>seg_text = ''one'', seg_lang = ''en''\<rparr>, \<lparr>seg_text = ''two'', seg_lang = ''en''\<rparr>,
                       \<lparr>seg_text = ''three'', seg_lang = ''en''\<rparr>]) None None False,
      UtteranceError \<lparr>utt_text = ''old'', utt_lang = ''en-US'', utt_voice = None\<rparr> ''interrupted'']
     initial)
   = [SynthCancel, SynthSpeak \<lparr>utt_text = ''old'', utt_lang = ''en-US'', utt_voice = None\<rparr>,
      SynthCancel, SynthSpeak \<lparr>utt_text = ''one'', utt_lang = ''en-US'', utt_voice = None\<rparr>,
      SynthSpeak \<lparr>utt_text = ''two'', utt_lang = ''en-US'', utt_voice = None\<rparr>]"
  by code_simp

text \<open>
  C7 as the code has it. \<open>speak\<close> returns normally whenever the language of every
  retained segment is a key of the language table. Let \<open>speak\<close> go ahead and return
  normally, and let only lifecycle events and interval ticks follow. Then the utterances built from the retained
  segments, in their order, are handed to the platform one by one: the first by
  \<open>speak\<close> itself if the platform was not speaking, and one more at each end or error
  event, so that after \<open>k\<close> such events exactly the first \<open>k + 1\<close> (or \<open>k\<close>) have
  been handed over and the others are still queued. Segment \<open>n + 1\<close> therefore starts
  after the end or error of segment \<open>n\<close> as long as the events delivered are those of
  the request's own segments.
\<close>

theorem segments_in_order:
  "((\<forall>sg\<in>set (normalizeSegments e tos (langOrGenderArg la)).
        seg_lang sg \<in> fst ` set (bcp47LanguageMap e)) \<longrightarrow>
      fst (speak e tos onEnd la sp s) = Returned)
   \<and> (\<not> isMuted s \<and> hasSpeechSynthesis e \<and> speak e tos onEnd la sp s = (Returned, s1) \<and>
   (\<forall>ev\<in>set evs. lifecycle ev) \<longrightarrow>
     (\<exists>us. map Some us = map (newUtterance e (voices s) (langOrGenderArg la))
                        (normalizeSegments e tos (langOrGenderArg la)) \<and>
        map utt_text us = map seg_text (normalizeSegments e tos (langOrGenderArg la)) \<and>
        synthCalls (run e evs s1) =
          synthCalls s @ [SynthCancel] @ map SynthSpeak (take ((if sp then 0 else 1) + ends evs) us) \<and>
        utteranceQueue (run e evs s1) = drop ((if sp then 0 else 1) + ends evs) us))"
  using speak_returns [of e tos la onEnd sp s] handover_after_events [of s e tos onEnd la sp s1 evs]
  by blast

text \<open>
  The theorem for three segments in two languages, after the start, a tick and the
  error of the first segment: two utterances have been handed over.
\<close>

theorem segments_in_order_witness:
  "\<not> isMuted initial \<and> hasSpeechSynthesis browser
   \<and> fst (speak browser
        (Segments [\<lparr>seg_text = ''one'', seg_lang = ''en''\<rparr>, \<lparr>seg_text = ''two'', seg_lang = ''hi''\<rparr>,
                   \<lparr>seg_text = ''three'', seg_lang = ''en''\<rparr>]) (Some 1) None False initial) = Returned
   \<and> list_all lifecycle
         [UtteranceStart \<lparr>utt_text = ''one'', utt_lang = ''en-US'', utt_voice = None\<rparr> 3,
          IntervalTick 2,
          UtteranceError \<lparr>utt_text = ''one'', utt_lang = ''en-US'', utt_voice = None\<rparr> ''network'']
   \<and> (\<exists>us. map utt_text us = [''one'', ''two'', ''three''] \<and>
         synthCalls (run browser
            [UtteranceStart \<lparr>utt_text = ''one'', utt_lang = ''en-US'', utt_voice = None\<rparr> 3,
             IntervalTick 2,
             UtteranceError \<lparr>utt_text = ''one'', utt_lang = ''en-US'', utt_voice = None\<rparr> ''network'']
            (snd (speak browser
              (Segments [\<lparr>seg_text = ''one'', seg_lang = ''en''\<rparr>, \<lparr>seg_text = ''two'', seg_lang = ''hi''\<rparr>,
                   \<lparr>seg_text = ''three'', seg_lang = ''en''\<rparr>]) (Some 1) None False initial)))
         = [SynthCancel] @ map SynthSpeak (take 2 us))"
proof -
  let ?tos = "Segments [\<lparr>seg_text = ''one'', seg_lang = ''en''\<rparr>, \<lparr>seg_text = ''two'', seg_lang = ''hi''\<rparr>,
                   \<lparr>seg_text = ''three'', seg_lang = ''en''\<rparr>]"
  let ?evs = "[UtteranceStart \<lparr>utt_text = ''one'', utt_lang = ''en-US'', utt_voice = None\<rparr> 3,
                  IntervalTick 2,
                  UtteranceError \<lparr>utt_text = ''one'', utt_lang = ''en-US'', utt_voice = None\<rparr> ''network'']"
  have h1: "\<not> isMuted initial" by (simp add: initial_def)
  have h2: "hasSpeechSynthesis browser" by (simp add: browser_def)
  note t = segments_in_order [where s = initial and e = browser and tos = ?tos and onEnd = "Some 1"
      and la = None and sp = False and evs = ?evs
      and ?s1.0 = "snd (speak browser ?tos (Some 1) None False initial)"]
  have keys: "\<forall>sg\<in>set (normalizeSegments browser ?tos (langOrGenderArg None)).
      seg_lang sg \<in> fst ` set (bcp47LanguageMap browser)"
    by code_simp
  from t keys have h3: "fst (speak browser ?tos (Some 1) None False initial) = Returned"
    by blast
  then have h3': "speak browser ?tos (Some 1) None False initial
      = (Returned, snd (speak browser ?tos (Some 1) None False initial))"
    by (metis prod.collapse)
  have h4: "\<forall>ev\<in>set ?evs. lifecycle ev" by simp
  have n: "map seg_text (normalizeSegments browser ?tos (langOrGenderArg None)) = [''one'', ''two'', ''three'']"
    by code_simp
  have k: "(if False then 0 else 1) + ends ?evs = 2" by simp
  have i: "synthCalls initial = []" by (simp add: initial_def)
  from t h1 h2 h3' h4
  obtain us where "map utt_text us = map seg_text (normalizeSegments browser ?tos (langOrGenderArg None))"
    and "synthCalls (run browser ?evs (snd (speak browser ?tos (Some 1) None False initial))) =
          synthCalls initial @ [SynthCancel] @ map SynthSpeak (take ((if False then 0 else 1) + ends ?evs) us)"
    by blast
  then have "map utt_text us = [''one'', ''two'', ''three''] \<and>
      synthCalls (run browser ?evs (snd (speak browser ?tos (Some 1) None False initial))) =
          [SynthCancel] @ map SynthSpeak (take 2 us)"
    using n k i by (simp add: numeral_2_eq_2)
  then have ex: "\<exists>us. map utt_text us = [''one'', ''two'', ''three''] \<and>
      synthCalls (run browser ?evs (snd (speak browser ?tos (Some 1) None False initial))) =
          [SynthCancel] @ map SynthSpeak (take 2 us)"
    by (rule exI)
  have h4': "list_all lifecycle ?evs" by simp
  show ?thesis by (intro conjI) (rule h1 h2 h3 h4' ex)+
qed

subsection \<open>C8: a playback error counts as the end of the segment\<close>

text \<open>
  C8: \<open>utterance.onerror\<close> does what \<open>utterance.onend\<close> does, so a run in which a
  segment fails ends in the same state as the run in which it ends normally. With a
  segment still queued, the error hands that segment to the platform and keeps the rest
  of the queue; no callback is invoked or dropped and \<open>isSpeaking\<close> stays as it is.
  The handler has no failing outcome: nothing is thrown to the caller.
\<close>

theorem onerror_like_onend:
  "utterance_onerror u err s = utterance_onend u s
   \<and> run e (evs @ UtteranceError u err # evs') s = run e (evs @ UtteranceEnd u # evs') s
   \<and> (utteranceQueue s1 = u1 # rest \<longrightarrow>
        utteranceQueue (utterance_onerror u err s1) = rest \<and>
        synthCalls (utterance_onerror u err s1) = synthCalls s1 @ [SynthSpeak u1] \<and>
        fired (utterance_onerror u err s1) = fired s1 \<and>
        onEndCallback (utterance_onerror u err s1) = onEndCallback s1 \<and>
        isSpeaking (utterance_onerror u err s1) = isSpeaking s1)"
proof -
  have a: "utterance_onerror u err s = utterance_onend u s"
    by (simp add: utterance_onerror_def utterance_onend_def)
  have b: "run e (evs @ UtteranceError u err # evs') s = run e (evs @ UtteranceEnd u # evs') s"
    by (simp add: run_append utterance_onerror_def utterance_onend_def)
  have c: "utteranceQueue s1 = u1 # rest \<longrightarrow>
        utteranceQueue (utterance_onerror u err s1) = rest \<and>
        synthCalls (utterance_onerror u err s1) = synthCalls s1 @ [SynthSpeak u1] \<and>
        fired (utterance_onerror u err s1) = fired s1 \<and>
        onEndCallback (utterance_onerror u err s1) = onEndCallback s1 \<and>
        isSpeaking (utterance_onerror u err s1) = isSpeaking s1"
    by (simp add: utterance_onerror_def processQueue_Cons)
  from a b c show ?thesis by blast
qed

text \<open>
  The theorem at the error of a first segment with two more queued.
\<close>

theorem onerror_like_onend_witness:
  "utteranceQueue (initial\<lparr>isSpeaking := True, onEndCallback := Some 1,
       utteranceQueue := [\<lparr>utt_text = ''two'', utt_lang = ''en-US'', utt_voice = None\<rparr>,
                          \<lparr>utt_text = ''three'', utt_lang = ''en-US'', utt_voice = None\<rparr>]\<rparr>)
     = \<lparr>utt_text = ''two'', utt_lang = ''en-US'', utt_voice = None\<rparr> #
       [\<lparr>utt_text = ''three'', utt_lang = ''en-US'', utt_voice = None\<rparr>]
   \<and> utteranceQueue (utterance_onerror \<lparr>utt_text = ''one'', utt_lang = ''en-US'', utt_voice = None\<rparr> ''network''
       (initial\<lparr>isSpeaking := True, onEndCallback := Some 1,
          utteranceQueue := [\<lparr>utt_text = ''two'', utt_lang = ''en-US'', utt_voice = None\<rparr>,
                             \<lparr>utt_text = ''three'', utt_lang = ''en-US'', utt_voice = None\<rparr>]\<rparr>))
     = [\<lparr>utt_text = ''three'', utt_lang = ''en-US'', utt_voice = None\<rparr>]
   \<and> fired (utterance_onerror \<lparr>utt_text = ''one'', utt_lang = ''en-US'', utt_voice = None\<rparr> ''network''
       (initial\<lparr>isSpeaking := True, onEndCallback := Some 1,
          utteranceQueue := [\<lparr>utt_text = ''two'', utt_lang = ''en-US'', utt_voice = None\<rparr>,
                             \<lparr>utt_text = ''three'', utt_lang = ''en-US'', utt_voice = None\<rparr>]\<rparr>)) = []"
  using onerror_like_onend [where u = "\<lparr>utt_text = ''one'', utt_lang = ''en-US'', utt_voice = None\<rparr>"
      and err = "''network''" and s = initial and e = browser and evs = "[]" and evs' = "[]"
      and ?s1.0 = "initial\<lparr>isSpeaking := True, onEndCallback := Some 1,
          utteranceQueue := [\<lparr>utt_text = ''two'', utt_lang = ''en-US'', utt_voice = None\<rparr>,
                             \<lparr>utt_text = ''three'', utt_lang = ''en-US'', utt_voice = None\<rparr>]\<rparr>"
      and ?u1.0 = "\<lparr>utt_text = ''two'', utt_lang = ''en-US'', utt_voice = None\<rparr>"
      and rest = "[\<lparr>utt_text = ''three'', utt_lang = ''en-US'', utt_voice = None\<rparr>]"]
  by (simp add: initial_def)

subsection \<open>C9: blank segments and empty requests\<close>



subsection \<open>C10: only speak writes spokenText\<close>

text \<open>
  C10: \<open>cancel\<close>, \<open>processQueue\<close> and \<open>toggleMute\<close> leave \<open>spokenText\<close> as it
  is, and so does every event except a \<open>speak\<close> that goes ahead (not muted, speech
  available, some segment retained), which sets it to the retained texts joined by
  spaces. So after such a \<open>speak\<close>, whatever follows short of another \<open>speak\<close>
  (cancel, mute, ends and errors, the queue running empty), \<open>spokenText\<close> is still
  that joined text.
\<close>

theorem spokenText_only_set_by_speak:
  "spokenText (cancel e s) = spokenText s
   \<and> spokenText (processQueue s) = spokenText s
   \<and> spokenText (toggleMute e s) = spokenText s
   \<and> spokenText (step e ev s) =
       (case ev of
          Speak tos onEnd la sp \<Rightarrow>
            if isMuted s \<or> \<not> hasSpeechSynthesis e \<or> normalizeSegments e tos (langOrGenderArg la) = []
            then spokenText s
            else joinSpace (map seg_text (normalizeSegments e tos (langOrGenderArg la)))
        | _ \<Rightarrow> spokenText s)
   \<and> (\<not> isMuted s1 \<and> hasSpeechSynthesis e \<and> normalizeSegments e tos1 (langOrGenderArg la1) \<noteq> [] \<and>
       (\<forall>ev\<in>set evs. \<not> speakEvent ev) \<longrightarrow>
        spokenText (run e (Speak tos1 onEnd1 la1 sp1 # evs) s1) =
          joinSpace (map seg_text (normalizeSegments e tos1 (langOrGenderArg la1))))"
proof -
  have a: "spokenText (cancel e s) = spokenText s \<and> spokenText (processQueue s) = spokenText s
     \<and> spokenText (toggleMute e s) = spokenText s"
    by (simp add: toggleMute_def Let_def)
  note b = step_spokenText [of e ev s]
  have c: "\<not> isMuted s1 \<and> hasSpeechSynthesis e \<and> normalizeSegments e tos1 (langOrGenderArg la1) \<noteq> [] \<and>
       (\<forall>ev\<in>set evs. \<not> speakEvent ev) \<longrightarrow>
        spokenText (run e (Speak tos1 onEnd1 la1 sp1 # evs) s1) =
          joinSpace (map seg_text (normalizeSegments e tos1 (langOrGenderArg la1)))"
    by (simp add: run_spokenText speak_spokenText)
  from a b c show ?thesis by blast
qed

text \<open>
  The theorem for a request of three segments, one of them blank, followed by an end,
  a cancel, a mute and a late error.
\<close>

theorem spokenText_only_set_by_speak_witness:
  "\<not> isMuted initial \<and> hasSpeechSynthesis browser
   \<and> normalizeSegments browser (Segments [\<lparr>seg_text = ''good'', seg_lang = ''en''\<rparr>,
        \<lparr>seg_text = '' '', seg_lang = ''en''\<rparr>, \<lparr>seg_text = ''day'', seg_lang = ''hi''\<rparr>]) (langOrGenderArg None) \<noteq> []
   \<and> list_all (\<lambda>ev. \<not> speakEvent ev)
         [UtteranceEnd \<lparr>utt_text = ''good'', utt_lang = ''en-US'', utt_voice = None\<rparr>, Cancel,
          ToggleMute, UtteranceError \<lparr>utt_text = ''day'', utt_lang = ''hi-IN'', utt_voice = None\<rparr> ''canceled'']
   \<and> spokenText (run browser
        [Speak (Segments [\<lparr>seg_text = ''good'', seg_lang = ''en''\<rparr>,
            \<lparr>seg_text = '' '', seg_lang = ''en''\<rparr>, \<lparr>seg_text = ''day'', seg_lang = ''hi''\<rparr>]) (Some 1) None False,
         UtteranceEnd \<lparr>utt_text = ''good'', utt_lang = ''en-US'', utt_voice = None\<rparr>, Cancel,
         ToggleMute, UtteranceError \<lparr>utt_text = ''day'', utt_lang = ''hi-IN'', utt_voice = None\<rparr> ''canceled'']
        initial) = ''good day''"
proof -
  let ?tos = "Segments [\<lparr>seg_text = ''good'', seg_lang = ''en''\<rparr>,
        \<lparr>seg_text = '' '', seg_lang = ''en''\<rparr>, \<lparr>seg_text = ''day'', seg_lang = ''hi''\<rparr>]"
  let ?evs = "[UtteranceEnd \<lparr>utt_text = ''good'', utt_lang = ''en-US'', utt_voice = None\<rparr>, Cancel,
                  ToggleMute, UtteranceError \<lparr>utt_text = ''day'', utt_lang = ''hi-IN'', utt_voice = None\<rparr> ''canceled'']"
  have h1: "\<not> isMuted initial" by (simp add: initial_def)
  have h2: "hasSpeechSynthesis browser" by (simp add: browser_def)
  have h3: "normalizeSegments browser ?tos (langOrGenderArg None) \<noteq> []" by code_simp
  have h4: "\<forall>ev\<in>set ?evs. \<not> speakEvent ev" by simp
  have j: "joinSpace (map seg_text (normalizeSegments browser ?tos (langOrGenderArg None))) = ''good day''"
    by code_simp
  from h1 h2 h3 h4 spokenText_only_set_by_speak [where e = browser and ?s1.0 = initial and ?tos1.0 = ?tos
      and ?la1.0 = None and ?onEnd1.0 = "Some 1" and ?sp1.0 = False and evs = ?evs and s = initial
      and ev = Cancel]
  have "spokenText (run browser (Speak ?tos (Some 1) None False # ?evs) initial) =
          joinSpace (map seg_text (normalizeSegments browser ?tos (langOrGenderArg None)))"
    by blast
  with j have r: "spokenText (run browser (Speak ?tos (Some 1) None False # ?evs) initial) = ''good day''"
    by simp
  have h4': "list_all (\<lambda>ev. \<not> speakEvent ev) ?evs" by simp
  show ?thesis by (intro conjI) (rule h1 h2 h3 h4' r)+
qed

end
